theory Spec2Isabelle
  imports Main
begin

section \<open>Values shared by the OAuth core of backend-server.js\<close>

text \<open>
  Text is represented by its UTF-8 bytes: a \<^typ>\<open>string\<close> is the byte sequence of a
  JavaScript string that has no lone surrogate. Points in time are milliseconds since
  the epoch, as \<open>Date.getTime()\<close> counts them.
\<close>

type_synonym timestamp = int

text \<open>
  A parsed JSON value. A number keeps the text of its literal: the code under study
  never computes with a number that came out of \<open>JSON.parse\<close>. An object keeps its
  members in source order; a property read takes the last member of that name, as
  \<open>JSON.parse\<close> does with duplicate keys. The JavaScript value \<open>undefined\<close> is
  \<open>None\<close> of \<^typ>\<open>'a option\<close> throughout.
\<close>

datatype json =
    JNull
  | JBool bool
  | JNum string
  | JStr string
  | JArr "json list"
  | JObj "(string \<times> json) list"

section \<open>The token store: table oauth_tokens\<close>

text \<open>
  The body of a successful token response (\<open>response.data\<close> of the exchange
  functions), with the fields the callback reads. \<open>expires_in\<close> is a whole number of
  seconds.
\<close>

record token_response =
  tr_access_token :: "string option"
  tr_refresh_token :: "string option"
  tr_token_type :: "string option"
  tr_expires_in :: "int option"
  tr_scope :: "string option"

text \<open>
  One row of \<open>oauth_tokens\<close>, with the columns the upsert of the callback writes.
  \<open>user_id\<close> holds whatever the callback took out of the state parameter, so it is a
  JSON value or \<open>undefined\<close>; a NULL column is \<open>None\<close>.
\<close>

record token_row =
  user_id :: "json option"
  platform_id :: string
  access_token :: "string option"
  refresh_token :: "string option"
  token_type :: string
  expires_at :: "timestamp option"
  scope :: "string option"
  token_data :: token_response
  updated_at :: timestamp

text \<open>
  How a request to the store can fail: supabase-js hands back \<open>{ error }\<close>, or the
  awaited call throws.
\<close>

datatype store_fault = Returned_error string | Thrown string

text \<open>
  The behaviour of the remote store during one call of \<open>getUserOAuthToken\<close>: whether
  the select fails, and whether the delete issued for a given \<open>updated_at\<close> fails.
\<close>

record store_env =
  select_fault :: "store_fault option"
  delete_fault :: "timestamp \<Rightarrow> store_fault option"

definition row_matches :: "string \<Rightarrow> string \<Rightarrow> token_row \<Rightarrow> bool" where
  "row_matches userId platform r \<longleftrightarrow>
     user_id r = Some (JStr userId) \<and> platform_id r = platform"

text \<open>
  \<open>.eq('user_id', userId).eq('platform_id', platform).order('updated_at', { ascending: false })\<close>.
  The sort is stable: rows with equal \<open>updated_at\<close> keep their order in the table (the
  database leaves the order of ties open).
\<close>

definition select_tokens :: "string \<Rightarrow> string \<Rightarrow> token_row list \<Rightarrow> token_row list" where
  "select_tokens userId platform rows =
     sort_key (\<lambda>r. - updated_at r) (filter (row_matches userId platform) rows)"

text \<open>
  \<open>.delete().eq('user_id', userId).eq('platform_id', platform).eq('updated_at', t)\<close>:
  every row with that key and that \<open>updated_at\<close> goes.
\<close>

definition delete_tokens :: "string \<Rightarrow> string \<Rightarrow> timestamp \<Rightarrow> token_row list \<Rightarrow> token_row list" where
  "delete_tokens userId platform t rows =
     filter (\<lambda>r. \<not> (row_matches userId platform r \<and> updated_at r = t)) rows"

text \<open>
  The loop \<open>for (const token of tokensToDelete)\<close>: one delete per duplicate. A delete
  that fails leaves the table as it is, and the loop goes on (a thrown error is caught
  and logged, a returned one is not looked at).
\<close>

fun cleanup_duplicates ::
  "store_env \<Rightarrow> string \<Rightarrow> string \<Rightarrow> token_row list \<Rightarrow> token_row list \<Rightarrow> token_row list" where
  "cleanup_duplicates env userId platform [] rows = rows"
| "cleanup_duplicates env userId platform (token # tokensToDelete) rows =
     cleanup_duplicates env userId platform tokensToDelete
       (case delete_fault env (updated_at token) of
          None \<Rightarrow> delete_tokens userId platform (updated_at token) rows
        | Some _ \<Rightarrow> rows)"

text \<open>
  What one call leaves behind: the value returned to the caller (\<open>None\<close> is
  JavaScript's \<open>null\<close>), the table afterwards, and the \<open>updated_at\<close> of every delete
  request issued, in order.
\<close>

record fetch_result =
  returned :: "string option"
  rows_after :: "token_row list"
  deletes_issued :: "timestamp list"

text \<open>
  \<open>getUserOAuthToken(userId, platform)\<close>, lines 88 to 143, at the time \<open>now\<close> of
  \<open>new Date()\<close>.
\<close>

definition getUserOAuthToken ::
  "store_env \<Rightarrow> timestamp \<Rightarrow> token_row list \<Rightarrow> string \<Rightarrow> string \<Rightarrow> fetch_result" where
  "getUserOAuthToken env now rows userId platform =
     (case select_fault env of
        Some _ \<Rightarrow> \<lparr>returned = None, rows_after = rows, deletes_issued = []\<rparr>
      | None \<Rightarrow>
         (case select_tokens userId platform rows of
            [] \<Rightarrow> \<lparr>returned = None, rows_after = rows, deletes_issued = []\<rparr>
          | tokenData # tokensToDelete \<Rightarrow>
             \<lparr>returned =
                (case expires_at tokenData of
                   Some e \<Rightarrow> if e < now then None else access_token tokenData
                 | None \<Rightarrow> access_token tokenData),
              rows_after = cleanup_duplicates env userId platform tokensToDelete rows,
              deletes_issued = map updated_at tokensToDelete\<rparr>))"


text \<open>
  The row that decides a call is live at \<open>now\<close> when the test
  \<open>tokenData.expires_at && new Date(tokenData.expires_at) < new Date()\<close> is false.
\<close>

definition not_expired :: "timestamp \<Rightarrow> token_row \<Rightarrow> bool" where
  "not_expired now r \<longleftrightarrow> (case expires_at r of None \<Rightarrow> True | Some e \<Rightarrow> \<not> e < now)"

section \<open>The state parameter: base64, UTF-8 and JSON\<close>

subsection \<open>Base64, as Buffer reads and writes it\<close>

text \<open>
  \<open>Buffer.from(s, 'base64')\<close> accepts the standard and the URL-safe alphabet, skips
  every character outside them and stops at the first \<open>=\<close>.
\<close>

definition unbase64 :: "char \<Rightarrow> nat option" where
  "unbase64 c =
     (let n = of_char c :: nat in
      if 65 \<le> n \<and> n \<le> 90 then Some (n - 65)
      else if 97 \<le> n \<and> n \<le> 122 then Some (n - 71)
      else if 48 \<le> n \<and> n \<le> 57 then Some (n + 4)
      else if c = CHR ''+'' \<or> c = CHR ''-'' then Some 62
      else if c = CHR ''/'' \<or> c = CHR ''_'' then Some 63
      else None)"

fun sextets_to_bytes :: "nat list \<Rightarrow> string" where
  "sextets_to_bytes (w # x # y # z # rest) =
     char_of (w * 4 + x div 16) # char_of ((x mod 16) * 16 + y div 4) #
     char_of ((y mod 4) * 64 + z) # sextets_to_bytes rest"
| "sextets_to_bytes [w, x, y] =
     [char_of (w * 4 + x div 16), char_of ((x mod 16) * 16 + y div 4)]"
| "sextets_to_bytes [w, x] = [char_of (w * 4 + x div 16)]"
| "sextets_to_bytes _ = []"

definition sextets :: "string \<Rightarrow> nat list" where
  "sextets s = List.map_filter unbase64 (takeWhile (\<lambda>c. c \<noteq> CHR ''='') s)"

definition base64_decode :: "string \<Rightarrow> string" where
  "base64_decode s = sextets_to_bytes (sextets s)"

text \<open>\<open>buf.toString('base64')\<close>: the standard alphabet, padded with \<open>=\<close>.\<close>

definition base64_char :: "nat \<Rightarrow> char" where
  "base64_char n =
     (if n < 26 then char_of (n + 65)
      else if n < 52 then char_of (n + 71)
      else if n < 62 then char_of (n - 4)
      else if n = 62 then CHR ''+''
      else CHR ''/'')"

fun base64_encode :: "string \<Rightarrow> string" where
  "base64_encode (a # b # c # rest) =
     (let x = of_char a :: nat; y = of_char b :: nat; z = of_char c :: nat in
      base64_char (x div 4) # base64_char ((x mod 4) * 16 + y div 16) #
      base64_char ((y mod 16) * 4 + z div 64) # base64_char (z mod 64) #
      base64_encode rest)"
| "base64_encode [a, b] =
     (let x = of_char a :: nat; y = of_char b :: nat in
      [base64_char (x div 4), base64_char ((x mod 4) * 16 + y div 16),
       base64_char ((y mod 16) * 4), CHR ''=''])"
| "base64_encode [a] =
     (let x = of_char a :: nat in
      [base64_char (x div 4), base64_char ((x mod 4) * 16), CHR ''='', CHR ''=''])"
| "base64_encode [] = []"

subsection \<open>UTF-8, as \<open>buf.toString()\<close> decodes it\<close>

text \<open>
  Since text is kept as UTF-8 bytes, decoding a buffer keeps every well-formed sequence
  and puts the bytes of U+FFFD in place of every maximal ill-formed part.
\<close>

definition seq_len :: "nat \<Rightarrow> nat" where
  "seq_len n =
     (if n < 0x80 then 1
      else if 0xC2 \<le> n \<and> n \<le> 0xDF then 2
      else if 0xE0 \<le> n \<and> n \<le> 0xEF then 3
      else if 0xF0 \<le> n \<and> n \<le> 0xF4 then 4
      else 0)"

definition second_ok :: "nat \<Rightarrow> char \<Rightarrow> bool" where
  "second_ok n c =
     (let m = of_char c :: nat in
      if n = 0xE0 then 0xA0 \<le> m \<and> m \<le> 0xBF
      else if n = 0xED then 0x80 \<le> m \<and> m \<le> 0x9F
      else if n = 0xF0 then 0x90 \<le> m \<and> m \<le> 0xBF
      else if n = 0xF4 then 0x80 \<le> m \<and> m \<le> 0x8F
      else 0x80 \<le> m \<and> m \<le> 0xBF)"

definition continuation :: "char \<Rightarrow> bool" where
  "continuation c \<longleftrightarrow> 0x80 \<le> (of_char c :: nat) \<and> (of_char c :: nat) \<le> 0xBF"

text \<open>
  \<open>utf8_head b bs\<close> looks at the sequence that starts with the byte \<open>b\<close>: how many
  bytes of \<open>bs\<close> belong to it, and whether it is complete and well formed.
\<close>

definition utf8_head :: "char \<Rightarrow> string \<Rightarrow> nat \<times> bool" where
  "utf8_head b bs =
     (let n = of_char b :: nat; len = seq_len n in
      if len = 0 then (0, False)
      else if len = 1 then (0, True)
      else (case bs of
          [] \<Rightarrow> (0, False)
        | c # cs \<Rightarrow>
            if \<not> second_ok n c then (0, False)
            else if len = 2 then (1, True)
            else (case cs of
                [] \<Rightarrow> (1, False)
              | d # ds \<Rightarrow>
                  if \<not> continuation d then (1, False)
                  else if len = 3 then (2, True)
                  else (case ds of
                      [] \<Rightarrow> (2, False)
                    | e # es \<Rightarrow> if continuation e then (3, True) else (2, False)))))"

definition replacement_char :: string where
  "replacement_char = [CHR 0xEF, CHR 0xBF, CHR 0xBD]"

function utf8_toString :: "string \<Rightarrow> string" where
  "utf8_toString [] = []"
| "utf8_toString (b # bs) =
     (case utf8_head b bs of
        (k, ok) \<Rightarrow> (if ok then b # take k bs else replacement_char) @ utf8_toString (drop k bs))"
  by pat_completeness auto
termination
  by (relation "measure length") auto

text \<open>Well-formed UTF-8: what every text of the model is.\<close>

function utf8_valid :: "string \<Rightarrow> bool" where
  "utf8_valid [] = True"
| "utf8_valid (b # bs) =
     (case utf8_head b bs of (k, ok) \<Rightarrow> ok \<and> utf8_valid (drop k bs))"
  by pat_completeness auto
termination
  by (relation "measure length") auto

text \<open>
  The UTF-8 bytes of the UTF-16 code unit \<open>n\<close> (a lone surrogate is kept in the same
  three-byte form), and of the code point of a surrogate pair.
\<close>

definition utf8_of_unit :: "nat \<Rightarrow> string" where
  "utf8_of_unit n =
     (if n < 0x80 then [char_of n]
      else if n < 0x800 then [char_of (0xC0 + n div 64), char_of (0x80 + n mod 64)]
      else [char_of (0xE0 + n div 4096), char_of (0x80 + (n div 64) mod 64),
            char_of (0x80 + n mod 64)])"

definition utf8_of_pair :: "nat \<Rightarrow> nat \<Rightarrow> string" where
  "utf8_of_pair hi lo =
     (let cp = 0x10000 + (hi - 0xD800) * 0x400 + (lo - 0xDC00) in
      [char_of (0xF0 + cp div 262144), char_of (0x80 + (cp div 4096) mod 64),
       char_of (0x80 + (cp div 64) mod 64), char_of (0x80 + cp mod 64)])"

subsection \<open>JSON.parse\<close>

definition dquote :: char where
  "dquote = CHR 0x22"

definition backslash :: char where
  "backslash = CHR 0x5C"

definition is_ws :: "char \<Rightarrow> bool" where
  "is_ws c \<longleftrightarrow> c = CHR '' '' \<or> c = CHR 0x09 \<or> c = CHR 0x0A \<or> c = CHR 0x0D"

definition skip_ws :: "string \<Rightarrow> string" where
  "skip_ws = dropWhile is_ws"

definition is_digit :: "char \<Rightarrow> bool" where
  "is_digit c \<longleftrightarrow> 48 \<le> (of_char c :: nat) \<and> (of_char c :: nat) \<le> 57"

definition hex_val :: "char \<Rightarrow> nat option" where
  "hex_val c =
     (let n = of_char c :: nat in
      if 48 \<le> n \<and> n \<le> 57 then Some (n - 48)
      else if 97 \<le> n \<and> n \<le> 102 then Some (n - 87)
      else if 65 \<le> n \<and> n \<le> 70 then Some (n - 55)
      else None)"

fun parse_hex4 :: "string \<Rightarrow> (nat \<times> string) option" where
  "parse_hex4 (a # b # c # d # r) =
     (case (hex_val a, hex_val b, hex_val c, hex_val d) of
        (Some h3, Some h2, Some h1, Some h0) \<Rightarrow> Some (h3 * 4096 + h2 * 256 + h1 * 16 + h0, r)
      | _ \<Rightarrow> None)"
| "parse_hex4 _ = None"

definition simple_escape :: "char \<Rightarrow> char option" where
  "simple_escape e =
     (if e = dquote then Some dquote
      else if e = backslash then Some backslash
      else if e = CHR ''/'' then Some (CHR ''/'')
      else if e = CHR ''b'' then Some (CHR 0x08)
      else if e = CHR ''f'' then Some (CHR 0x0C)
      else if e = CHR ''n'' then Some (CHR 0x0A)
      else if e = CHR ''r'' then Some (CHR 0x0D)
      else if e = CHR ''t'' then Some (CHR 0x09)
      else None)"

text \<open>
  One character of a string literal, raw or escaped, as its UTF-8 bytes, with the input
  left after it. A \<open>\u\<close> escape of a high surrogate that is followed by one of a low
  surrogate gives the code point of the pair.
\<close>

definition lex_char :: "string \<Rightarrow> (string \<times> string) option" where
  "lex_char s =
     (case s of
        [] \<Rightarrow> None
      | c # cs \<Rightarrow>
          if c = backslash then
            (case cs of
               [] \<Rightarrow> None
             | e # r \<Rightarrow>
                 if e = CHR ''u'' then
                   (case parse_hex4 r of
                      None \<Rightarrow> None
                    | Some (hi, r1) \<Rightarrow>
                        if 0xD800 \<le> hi \<and> hi \<le> 0xDBFF then
                          (case r1 of
                             b1 # u1 # r2 \<Rightarrow>
                               if b1 = backslash \<and> u1 = CHR ''u'' then
                                 (case parse_hex4 r2 of
                                    Some (lo, r3) \<Rightarrow>
                                      if 0xDC00 \<le> lo \<and> lo \<le> 0xDFFF
                                      then Some (utf8_of_pair hi lo, r3)
                                      else Some (utf8_of_unit hi, r1)
                                  | None \<Rightarrow> Some (utf8_of_unit hi, r1))
                               else Some (utf8_of_unit hi, r1)
                           | _ \<Rightarrow> Some (utf8_of_unit hi, r1))
                        else Some (utf8_of_unit hi, r1))
                 else (case simple_escape e of
                         None \<Rightarrow> None
                       | Some ch \<Rightarrow> Some ([ch], r)))
          else if (of_char c :: nat) < 0x20 then None
          else Some ([c], cs))"

lemma parse_hex4_shorter: "parse_hex4 s = Some (n, r) \<Longrightarrow> length r < length s"
  by (induction s rule: parse_hex4.induct) (auto split: option.splits)

lemma lex_char_shorter: "lex_char s = Some (bytes, r) \<Longrightarrow> length r < length s"
  by (auto simp: lex_char_def split: list.splits if_splits option.splits
      dest!: parse_hex4_shorter)

text \<open>The rest of a string literal after its opening quote, up to the closing one.\<close>

function parse_string :: "string \<Rightarrow> (string \<times> string) option" where
  "parse_string [] = None"
| "parse_string (c # cs) =
     (if c = dquote then Some ([], cs)
      else (case lex_char (c # cs) of
              None \<Rightarrow> None
            | Some (bytes, r) \<Rightarrow>
                (case parse_string r of
                   None \<Rightarrow> None
                 | Some (t, r') \<Rightarrow> Some (bytes @ t, r'))))"
  by pat_completeness auto
termination
  by (relation "measure length") (auto dest: lex_char_shorter)

text \<open>
  A number literal: \<open>-? (0 | [1-9][0-9]*) (. [0-9]+)? ([eE] [+-]? [0-9]+)?\<close>. The
  value is the text of the literal.
\<close>

definition lex_int :: "string \<Rightarrow> (string \<times> string) option" where
  "lex_int s =
     (case s of
        [] \<Rightarrow> None
      | c # cs \<Rightarrow>
          if c = CHR ''0'' then Some ([c], cs)
          else if is_digit c then Some (takeWhile is_digit s, dropWhile is_digit s)
          else None)"

definition lex_frac :: "string \<Rightarrow> (string \<times> string) option" where
  "lex_frac s =
     (case s of
        c # cs \<Rightarrow>
          if c = CHR ''.'' then
            (if takeWhile is_digit cs = [] then None
             else Some (c # takeWhile is_digit cs, dropWhile is_digit cs))
          else Some ([], s)
      | [] \<Rightarrow> Some ([], s))"

definition lex_exp :: "string \<Rightarrow> (string \<times> string) option" where
  "lex_exp s =
     (case s of
        c # cs \<Rightarrow>
          if c = CHR ''e'' \<or> c = CHR ''E'' then
            (let (sign, ds) =
               (case cs of
                  g # cs' \<Rightarrow> if g = CHR ''+'' \<or> g = CHR ''-'' then ([g], cs') else ([], cs)
                | [] \<Rightarrow> ([], cs))
             in if takeWhile is_digit ds = [] then None
                else Some (c # sign @ takeWhile is_digit ds, dropWhile is_digit ds))
          else Some ([], s)
      | [] \<Rightarrow> Some ([], s))"

definition lex_number :: "string \<Rightarrow> (string \<times> string) option" where
  "lex_number s =
     (let (sign, s0) =
        (case s of
           c # cs \<Rightarrow> if c = CHR ''-'' then ([c], cs) else ([], s)
         | [] \<Rightarrow> ([], s))
      in case lex_int s0 of
           None \<Rightarrow> None
         | Some (ip, s1) \<Rightarrow>
             (case lex_frac s1 of
                None \<Rightarrow> None
              | Some (fp, s2) \<Rightarrow>
                  (case lex_exp s2 of
                     None \<Rightarrow> None
                   | Some (ep, s3) \<Rightarrow> Some (sign @ ip @ fp @ ep, s3))))"

text \<open>A value that is neither an object nor an array, at the head of the input.\<close>

definition parse_scalar :: "string \<Rightarrow> (json \<times> string) option" where
  "parse_scalar s =
     (case s of
        [] \<Rightarrow> None
      | c # cs \<Rightarrow>
          if c = dquote then map_option (\<lambda>(t, r). (JStr t, r)) (parse_string cs)
          else if take 4 s = ''true'' then Some (JBool True, drop 4 s)
          else if take 5 s = ''false'' then Some (JBool False, drop 5 s)
          else if take 4 s = ''null'' then Some (JNull, drop 4 s)
          else map_option (\<lambda>(t, r). (JNum t, r)) (lex_number s))"

lemma skip_ws_shorter: "skip_ws s = c # cs \<Longrightarrow> length cs < length s"
  using length_dropWhile_le [of is_ws s] by (simp add: skip_ws_def)

lemma parse_string_shorter: "parse_string s = Some (t, r) \<Longrightarrow> length r < length s"
proof (induction s arbitrary: t rule: parse_string.induct)
  case 1
  then show ?case by simp
next
  case (2 c cs)
  show ?case
  proof (cases "c = dquote")
    case True
    with "2.prems" show ?thesis by simp
  next
    case False
    with "2.prems" obtain bytes r0 t0 where
      l: "lex_char (c # cs) = Some (bytes, r0)" and p: "parse_string r0 = Some (t0, r)"
      by (auto split: option.splits)
    from "2.IH" [OF False l refl p] lex_char_shorter [OF l] show ?thesis by simp
  qed
qed

text \<open>
  Values, the elements of an array after its \<open>[\<close>, and the members of an object
  after its \<open>{\<close>. The two tests on lengths only make the recursion visibly
  terminating: they never fail (lemmas \<open>parse_elements_unguarded\<close> and
  \<open>parse_members_unguarded\<close>).
\<close>

function parse_value :: "string \<Rightarrow> (json \<times> string) option"
  and parse_elements :: "string \<Rightarrow> (json list \<times> string) option"
  and parse_members :: "string \<Rightarrow> ((string \<times> json) list \<times> string) option" where
  "parse_value s =
     (case skip_ws s of
        [] \<Rightarrow> None
      | c # cs \<Rightarrow>
          if c = CHR ''['' then
            (case skip_ws cs of
               [] \<Rightarrow> None
             | c' # cs' \<Rightarrow>
                 if c' = CHR '']'' then Some (JArr [], cs')
                 else map_option (\<lambda>(vs, r). (JArr vs, r)) (parse_elements cs))
          else if c = CHR ''{'' then
            (case skip_ws cs of
               [] \<Rightarrow> None
             | c' # cs' \<Rightarrow>
                 if c' = CHR ''}'' then Some (JObj [], cs')
                 else map_option (\<lambda>(ms, r). (JObj ms, r)) (parse_members cs))
          else parse_scalar (c # cs))"
| "parse_elements s =
     (case parse_value s of
        None \<Rightarrow> None
      | Some (v, r) \<Rightarrow>
          (case skip_ws r of
             [] \<Rightarrow> None
           | c # cs \<Rightarrow>
               if c = CHR '','' then
                 (if length cs < length s then
                    (case parse_elements cs of
                       None \<Rightarrow> None
                     | Some (vs, r') \<Rightarrow> Some (v # vs, r'))
                  else None)
               else if c = CHR '']'' then Some ([v], cs)
               else None))"
| "parse_members s =
     (case skip_ws s of
        [] \<Rightarrow> None
      | q # s1 \<Rightarrow>
          if q \<noteq> dquote then None
          else (case parse_string s1 of
                  None \<Rightarrow> None
                | Some (k, s2) \<Rightarrow>
                    (case skip_ws s2 of
                       [] \<Rightarrow> None
                     | colon # s3 \<Rightarrow>
                         if colon \<noteq> CHR '':'' then None
                         else (case parse_value s3 of
                                 None \<Rightarrow> None
                               | Some (v, r) \<Rightarrow>
                                   (case skip_ws r of
                                      [] \<Rightarrow> None
                                    | c # cs \<Rightarrow>
                                        if c = CHR '','' then
                                          (if length cs < length s then
                                             (case parse_members cs of
                                                None \<Rightarrow> None
                                              | Some (ms, r') \<Rightarrow> Some ((k, v) # ms, r'))
                                           else None)
                                        else if c = CHR ''}'' then Some ([(k, v)], cs)
                                        else None)))))"
  by pat_completeness auto
termination
  by (relation "measure (\<lambda>x. case x of
          Inl s \<Rightarrow> 2 * length s
        | Inr (Inl s) \<Rightarrow> 2 * length s + 1
        | Inr (Inr s) \<Rightarrow> 2 * length s + 1)")
    (auto dest!: skip_ws_shorter parse_string_shorter)

declare parse_value.simps [simp del] parse_elements.simps [simp del] parse_members.simps [simp del]

text \<open>\<open>JSON.parse(text)\<close>; \<open>None\<close> is the SyntaxError.\<close>

definition JSON_parse :: "string \<Rightarrow> json option" where
  "JSON_parse s =
     (case parse_value s of
        None \<Rightarrow> None
      | Some (v, r) \<Rightarrow> if skip_ws r = [] then Some v else None)"

subsection \<open>Reading the state\<close>

text \<open>
  A property read \<open>v.name\<close> for a name that is no built-in property of strings or
  arrays (the callback reads \<open>userId\<close> and \<open>platform\<close>): the last member of that
  name of an object, \<open>undefined\<close> on any other value. Reading from \<open>null\<close> throws and
  is dealt with by the caller.
\<close>

fun member :: "json \<Rightarrow> string \<Rightarrow> json option" where
  "member (JObj ms) name = map_of (rev ms) name"
| "member _ name = None"

text \<open>
  Errors that the JavaScript engine throws; the text of their message is its own. The
  SyntaxError of \<open>JSON.parse\<close> carries the text that did not parse, since the engine
  quotes from it.
\<close>

datatype engine_error =
    SyntaxError_JSON string
  | TypeError_destructure
  | TypeError_property
  | RangeError_date
  | URIError_malformed

datatype thrown = Error string | Engine engine_error

text \<open>
  Lines 1762 and 1763:
  \<open>const stateData = JSON.parse(Buffer.from(state, 'base64').toString());\<close>
  \<open>const { userId, platform: statePlatform } = stateData;\<close>
  The result is the pair (userId, statePlatform).
\<close>

definition decode_state :: "string \<Rightarrow> thrown + (json option \<times> json option)" where
  "decode_state state =
     (let text = utf8_toString (base64_decode state) in
      case JSON_parse text of
        None \<Rightarrow> Inl (Engine (SyntaxError_JSON text))
      | Some JNull \<Rightarrow> Inl (Engine TypeError_destructure)
      | Some stateData \<Rightarrow> Inr (member stateData ''userId'', member stateData ''platform''))"

subsection \<open>Writing the state\<close>

definition hex_lower :: "nat \<Rightarrow> char" where
  "hex_lower n = (if n < 10 then char_of (48 + n) else char_of (87 + n))"

definition hex_upper :: "nat \<Rightarrow> char" where
  "hex_upper n = (if n < 10 then char_of (48 + n) else char_of (55 + n))"

text \<open>\<open>JSON.stringify\<close> of one character of a string.\<close>

definition quote_char :: "char \<Rightarrow> string" where
  "quote_char c =
     (let n = of_char c :: nat in
      if c = dquote then [backslash, dquote]
      else if c = backslash then [backslash, backslash]
      else if n = 0x08 then [backslash, CHR ''b'']
      else if n = 0x0C then [backslash, CHR ''f'']
      else if n = 0x0A then [backslash, CHR ''n'']
      else if n = 0x0D then [backslash, CHR ''r'']
      else if n = 0x09 then [backslash, CHR ''t'']
      else if n < 0x20 then
        [backslash, CHR ''u'', CHR ''0'', CHR ''0'', hex_lower (n div 16), hex_lower (n mod 16)]
      else [c])"

definition json_quote :: "string \<Rightarrow> string" where
  "json_quote s = dquote # concat (map quote_char s) @ [dquote]"

text \<open>
  \<open>JSON.stringify\<close> of an object with two members whose values are strings, the
  first named \<open>userId\<close>.
\<close>

definition stringify_state :: "string \<Rightarrow> string \<Rightarrow> string \<Rightarrow> string" where
  "stringify_state userId key platform =
     ''{'' @ json_quote ''userId'' @ '':'' @ json_quote userId @ '','' @
     json_quote key @ '':'' @ json_quote platform @ ''}''"

text \<open>
  Modelled from the spec: the encoder of the state parameter, which is not in the
  repository (the front end builds the state). Section 4.2 has it serialise
  \<open>{userId, platformId}\<close> and apply a reversible binary-to-text transform; the claim
  names the two steps, JSON and base64.
\<close>

definition encode_state_spec :: "string \<Rightarrow> string \<Rightarrow> string" where
  "encode_state_spec userId platformId =
     base64_encode (stringify_state userId ''platformId'' platformId)"

text \<open>
  The same encoder with the member named as line 1763 reads it:
  \<open>{ userId, platform }\<close>.
\<close>

definition encode_state :: "string \<Rightarrow> string \<Rightarrow> string" where
  "encode_state userId platform =
     base64_encode (stringify_state userId ''platform'' platform)"

section \<open>Platform configuration\<close>

text \<open>A row of \<open>platform_oauth_configs\<close>, as \<open>select('*')\<close> returns it.\<close>

record config_row =
  cfg_platform_id :: string
  enabled :: bool
  client_id :: "string option"
  client_secret :: "string option"
  redirect_uri :: "string option"
  cfg_scopes :: "string option"
  api_endpoint :: "string option"

text \<open>What \<open>getPlatformConfig\<close> returns, and the shape of \<open>setting_value\<close>.\<close>

record platform_config =
  clientId :: "string option"
  clientSecret :: "string option"
  redirectUri :: "string option"
  scopes :: "string option"
  apiEndpoint :: "string option"

text \<open>A row of the older table \<open>platform_settings\<close>.\<close>

record settings_row = config_row +
  setting_value :: "platform_config option"

record database =
  platform_oauth_configs :: "config_row list"
  platform_settings :: "settings_row list"
  oauth_tokens :: "token_row list"

text \<open>\<open>.single()\<close>: the row when exactly one row matches, otherwise no data.\<close>

definition single :: "'a list \<Rightarrow> 'a option" where
  "single rows = (case rows of [r] \<Rightarrow> Some r | _ \<Rightarrow> None)"



section \<open>The code exchange functions\<close>

datatype http_method = GET | POST

text \<open>
  The body of a request: none, a form (\<open>URLSearchParams\<close>, every value already a
  string), or an object that axios sends as JSON.
\<close>

datatype http_body =
    No_body
  | Form "(string \<times> string) list"
  | Json_object "(string \<times> string option) list"

record http_request =
  http_method :: http_method
  url :: string
  headers :: "(string \<times> string) list"
  params :: "(string \<times> string option) list"
  body :: http_body

text \<open>\<open>String(v)\<close> of a column value: \<open>null\<close> reads \<open>null\<close>.\<close>

definition js_String :: "string option \<Rightarrow> string" where
  "js_String v = (case v of Some s \<Rightarrow> s | None \<Rightarrow> ''null'')"

text \<open>
  Each exchange function is given by the request it sends; what it returns is the
  provider's answer to that request (see \<open>provider\<close> below).
\<close>

definition exchangeSpotifyCode :: "string \<Rightarrow> config_row \<Rightarrow> http_request" where
  "exchangeSpotifyCode code config =
     \<lparr>http_method = POST,
      url = ''https://accounts.spotify.com/api/token'',
      headers = [(''Content-Type'', ''application/x-www-form-urlencoded'')],
      params = [],
      body = Form [(''grant_type'', ''authorization_code''),
                   (''code'', code),
                   (''redirect_uri'', js_String (redirect_uri config)),
                   (''client_id'', js_String (client_id config)),
                   (''client_secret'', js_String (client_secret config))]\<rparr>"

definition exchangeGoogleCode :: "string \<Rightarrow> config_row \<Rightarrow> http_request" where
  "exchangeGoogleCode code config =
     \<lparr>http_method = POST,
      url = ''https://oauth2.googleapis.com/token'',
      headers = [],
      params = [],
      body = Json_object [(''grant_type'', Some ''authorization_code''),
                          (''code'', Some code),
                          (''redirect_uri'', redirect_uri config),
                          (''client_id'', client_id config),
                          (''client_secret'', client_secret config)]\<rparr>"

definition exchangeFacebookCode :: "string \<Rightarrow> config_row \<Rightarrow> http_request" where
  "exchangeFacebookCode code config =
     \<lparr>http_method = GET,
      url = ''https://graph.facebook.com/v18.0/oauth/access_token'',
      headers = [],
      params = [(''client_id'', client_id config),
                (''client_secret'', client_secret config),
                (''redirect_uri'', redirect_uri config),
                (''code'', Some code)],
      body = No_body\<rparr>"

definition exchangeTwitterCode :: "string \<Rightarrow> config_row \<Rightarrow> http_request" where
  "exchangeTwitterCode code config =
     \<lparr>http_method = POST,
      url = ''https://api.twitter.com/2/oauth2/token'',
      headers = [(''Content-Type'', ''application/x-www-form-urlencoded''),
                 (''Authorization'',
                  ''Basic '' @ base64_encode
                     (js_String (client_id config) @ '':'' @ js_String (client_secret config)))],
      params = [],
      body = Form [(''grant_type'', ''authorization_code''),
                   (''code'', code),
                   (''redirect_uri'', js_String (redirect_uri config)),
                   (''client_id'', js_String (client_id config)),
                   (''code_verifier'', ''challenge'')]\<rparr>"

definition exchangeTikTokCode :: "string \<Rightarrow> config_row \<Rightarrow> http_request" where
  "exchangeTikTokCode code config =
     \<lparr>http_method = POST,
      url = ''https://open-api.tiktok.com/oauth/access_token/'',
      headers = [],
      params = [],
      body = Json_object [(''client_key'', client_id config),
                          (''client_secret'', client_secret config),
                          (''code'', Some code),
                          (''grant_type'', Some ''authorization_code''),
                          (''redirect_uri'', redirect_uri config)]\<rparr>"

text \<open>The \<open>switch (platform)\<close> of lines 1785 to 1805; \<open>None\<close> is its default branch.\<close>

definition exchange_for :: "string \<Rightarrow> string \<Rightarrow> config_row \<Rightarrow> http_request option" where
  "exchange_for platform code platformConfig =
     (if platform = ''spotify'' then Some (exchangeSpotifyCode code platformConfig)
      else if platform = ''youtube'' \<or> platform = ''google_analytics''
        then Some (exchangeGoogleCode code platformConfig)
      else if platform = ''facebook'' \<or> platform = ''instagram''
        then Some (exchangeFacebookCode code platformConfig)
      else if platform = ''twitter'' then Some (exchangeTwitterCode code platformConfig)
      else if platform = ''tiktok'' then Some (exchangeTikTokCode code platformConfig)
      else None)"

definition supported_platforms :: "string list" where
  "supported_platforms =
     [''spotify'', ''youtube'', ''google_analytics'', ''facebook'', ''instagram'',
      ''twitter'', ''tiktok'']"

section \<open>The callback \<open>GET /api/auth/callback/:platform\<close>\<close>

text \<open>
  \<open>req.params.platform\<close> and the three query parameters the handler reads; a
  parameter is absent or a string of well-formed text. (Express hands over an array or
  an object for a repeated or bracketed parameter; such requests are outside this
  model.)
\<close>

record callback_request =
  params_platform :: string
  query_code :: "string option"
  query_state :: "string option"
  query_error :: "string option"

text \<open>
  What the provider's token endpoint does with a request: axios throws (any answer
  outside 2xx, or no answer), or \<open>response.data\<close> is \<open>null\<close>, or it is a body.
\<close>

datatype provider_reply =
    Request_failed string
  | Body_null
  | Body token_response

text \<open>
  The \<open>message\<close> of an error. A \<^typ>\<open>string\<close> is well-formed text; a message of the
  engine can also hold a lone surrogate, a text that has no UTF-8 bytes.
\<close>

datatype message_text = Wellformed string | Lone_surrogate

text \<open>
  Everything outside the process during one callback: the environment variable
  \<open>FRONTEND_URL\<close>, the clock, the faults of the store on the read of the
  configuration and on the upsert, the provider, and the message texts of the engine.
\<close>

record callback_env =
  FRONTEND_URL :: "string option"
  clock :: timestamp
  config_fault :: "store_fault option"
  upsert_fault :: "store_fault option"
  provider :: "http_request \<Rightarrow> provider_reply"
  engine_message :: "engine_error \<Rightarrow> message_text"

text \<open>What the handler asks of the outside, in order.\<close>

datatype effect =
    Config_read string
  | Exchange http_request
  | Token_upsert token_row

text \<open>
  How a request can end: a redirect, a JSON body with a status (as the other routes
  of the server answer), or an error that leaves the handler uncaught.
\<close>

datatype outcome =
    Redirect string
  | Json_reply nat string
  | Uncaught thrown

record callback_result =
  response :: outcome
  effects :: "effect list"
  db_after :: database

definition message :: "callback_env \<Rightarrow> thrown \<Rightarrow> message_text" where
  "message env err =
     (case err of Error m \<Rightarrow> Wellformed m | Engine e \<Rightarrow> engine_message env e)"

definition fault_message :: "store_fault \<Rightarrow> string" where
  "fault_message f = (case f of Returned_error m \<Rightarrow> m | Thrown m \<Rightarrow> m)"

text \<open>
  \<open>encodeURIComponent\<close> on well-formed text, byte by byte. On a text with a lone
  surrogate it throws a URIError; the handler can meet such a text only as the message
  of an engine error (see \<open>catch_redirect\<close>).
\<close>

definition uri_unreserved :: "char \<Rightarrow> bool" where
  "uri_unreserved c \<longleftrightarrow>
     (let n = of_char c :: nat in
      (65 \<le> n \<and> n \<le> 90) \<or> (97 \<le> n \<and> n \<le> 122) \<or> (48 \<le> n \<and> n \<le> 57)
      \<or> c \<in> set ''-_.!~*'' \<or> n = 0x27 \<or> c = CHR ''('' \<or> c = CHR '')'')"

definition encodeURIComponent :: "string \<Rightarrow> string" where
  "encodeURIComponent s =
     concat (map (\<lambda>c. if uri_unreserved c then [c]
                       else [CHR ''%'', hex_upper (of_char c div 16), hex_upper (of_char c mod 16)])
                 s)"

text \<open>\<open>${process.env.FRONTEND_URL || 'http://localhost:3000'}/auth/callback/${platform}\<close>\<close>

definition frontend_callback :: "callback_env \<Rightarrow> string \<Rightarrow> string" where
  "frontend_callback env platform =
     (case FRONTEND_URL env of Some (c # cs) \<Rightarrow> c # cs | _ \<Rightarrow> ''http://localhost:3000'')
     @ ''/auth/callback/'' @ platform"

definition redirect_error :: "callback_env \<Rightarrow> string \<Rightarrow> string \<Rightarrow> outcome" where
  "redirect_error env platform msg =
     Redirect (frontend_callback env platform @ ''?error='' @ encodeURIComponent msg)"

definition redirect_success :: "callback_env \<Rightarrow> string \<Rightarrow> outcome" where
  "redirect_success env platform =
     Redirect (frontend_callback env platform @ ''?connected='' @ platform @ ''&success=true'')"

text \<open>
  The \<open>catch\<close> block, lines 1840 to 1843:
  \<open>res.redirect(`...?error=${encodeURIComponent(error.message)}`)\<close>. Nothing guards
  the call of \<open>encodeURIComponent\<close>: when the message holds a lone surrogate, the
  URIError leaves the handler and no answer is sent.
\<close>

definition catch_redirect :: "callback_env \<Rightarrow> string \<Rightarrow> thrown \<Rightarrow> outcome" where
  "catch_redirect env platform err =
     (case message env err of
        Wellformed m \<Rightarrow> redirect_error env platform m
      | Lone_surrogate \<Rightarrow> Uncaught (Engine URIError_malformed))"

text \<open>
  Lines 1810 and 1811:
  \<open>tokenData.expires_in ? new Date(Date.now() + (tokenData.expires_in * 1000)).toISOString() : null\<close>.
  \<open>toISOString\<close> throws a RangeError outside the range of \<open>Date\<close>.
\<close>

definition compute_expiresAt :: "timestamp \<Rightarrow> token_response \<Rightarrow> thrown + timestamp option" where
  "compute_expiresAt now tokenData =
     (case tr_expires_in tokenData of
        None \<Rightarrow> Inr None
      | Some n \<Rightarrow>
          if n = 0 then Inr None
          else if \<bar>now + n * 1000\<bar> > 8640000000000000 then Inl (Engine RangeError_date)
          else Inr (Some (now + n * 1000)))"

text \<open>The object handed to \<open>upsert\<close>, lines 1815 to 1825.\<close>

definition upsert_values ::
  "timestamp \<Rightarrow> json option \<Rightarrow> string \<Rightarrow> token_response \<Rightarrow> timestamp option \<Rightarrow> token_row" where
  "upsert_values now userId platform tokenData expiresAt =
     \<lparr>user_id = userId,
      platform_id = platform,
      access_token = tr_access_token tokenData,
      refresh_token = tr_refresh_token tokenData,
      token_type = (case tr_token_type tokenData of Some (c # cs) \<Rightarrow> c # cs | _ \<Rightarrow> ''Bearer''),
      expires_at = expiresAt,
      scope = tr_scope tokenData,
      token_data = tokenData,
      updated_at = now\<rparr>"

text \<open>
  \<open>upsert(..., { onConflict: 'user_id,platform_id' })\<close> on the table: a row with the
  same user and platform takes the new values, otherwise the row is added.
\<close>

definition upsert_token :: "token_row \<Rightarrow> token_row list \<Rightarrow> token_row list" where
  "upsert_token new rows =
     (if \<exists>r \<in> set rows. user_id r = user_id new \<and> platform_id r = platform_id new
      then map (\<lambda>r. if user_id r = user_id new \<and> platform_id r = platform_id new
                     then new else r) rows
      else rows @ [new])"

text \<open>
  The \<open>try\<close> block, lines 1760 to 1838: the effects so far, the database, and either
  the error thrown or nothing when the block ran to its end.
\<close>

definition callback_try ::
  "callback_env \<Rightarrow> database \<Rightarrow> string \<Rightarrow> string \<Rightarrow> string
     \<Rightarrow> effect list \<times> database \<times> (thrown + unit)" where
  "callback_try env db platform code state =
     (case decode_state state of
        Inl err \<Rightarrow> ([], db, Inl err)
      | Inr (userId, statePlatform) \<Rightarrow>
          if statePlatform \<noteq> Some (JStr platform)
          then ([], db, Inl (Error ''Platform mismatch in state''))
          else
           (case config_fault env of
              Some (Thrown m) \<Rightarrow> ([Config_read platform], db, Inl (Error m))
            | cf \<Rightarrow>
             (case (if cf = None
                    then single (filter (\<lambda>r. cfg_platform_id r = platform \<and> enabled r)
                                   (platform_oauth_configs db))
                    else None) of
                None \<Rightarrow>
                  ([Config_read platform], db,
                   Inl (Error (''Platform '' @ platform @ '' not configured or not enabled'')))
              | Some platformConfig \<Rightarrow>
                 (case exchange_for platform code platformConfig of
                    None \<Rightarrow>
                      ([Config_read platform], db,
                       Inl (Error (''OAuth not implemented for platform: '' @ platform)))
                  | Some request \<Rightarrow>
                     (case provider env request of
                        Request_failed m \<Rightarrow>
                          ([Config_read platform, Exchange request], db, Inl (Error m))
                      | Body_null \<Rightarrow>
                          ([Config_read platform, Exchange request], db,
                           Inl (Engine TypeError_property))
                      | Body tokenData \<Rightarrow>
                         (case compute_expiresAt (clock env) tokenData of
                            Inl err \<Rightarrow>
                              ([Config_read platform, Exchange request], db, Inl err)
                          | Inr expiresAt \<Rightarrow>
                             (let values = upsert_values (clock env) userId platform
                                             tokenData expiresAt
                              in case upsert_fault env of
                                   Some f \<Rightarrow>
                                     ([Config_read platform, Exchange request,
                                       Token_upsert values], db,
                                      Inl (Error (fault_message f)))
                                 | None \<Rightarrow>
                                     ([Config_read platform, Exchange request,
                                       Token_upsert values],
                                      db\<lparr>oauth_tokens :=
                                           upsert_token values (oauth_tokens db)\<rparr>,
                                      Inr ()))))))))"

text \<open>The handler, lines 1744 to 1844.\<close>

definition auth_callback :: "callback_env \<Rightarrow> database \<Rightarrow> callback_request \<Rightarrow> callback_result" where
  "auth_callback env db req =
     (let platform = params_platform req in
      case query_error req of
        Some (e # es) \<Rightarrow>
          \<lparr>response = redirect_error env platform (e # es), effects = [], db_after = db\<rparr>
      | _ \<Rightarrow>
         (case (query_code req, query_state req) of
            (Some (c # cs), Some (s # ss)) \<Rightarrow>
              (case callback_try env db platform (c # cs) (s # ss) of
                 (effs, db', Inl err) \<Rightarrow>
                   \<lparr>response = catch_redirect env platform err,
                    effects = effs, db_after = db'\<rparr>
               | (effs, db', Inr _) \<Rightarrow>
                   \<lparr>response = redirect_success env platform,
                    effects = effs, db_after = db'\<rparr>)
          | _ \<Rightarrow>
              \<lparr>response = Redirect (frontend_callback env platform @ ''?error=missing_parameters''),
               effects = [], db_after = db\<rparr>))"

subsection \<open>A small table for the scenarios\<close>

definition reachable_store :: store_env where
  "reachable_store = \<lparr>select_fault = None, delete_fault = (\<lambda>_. None)\<rparr>"

definition unreachable_store :: store_env where
  "unreachable_store =
     \<lparr>select_fault = Some (Returned_error ''fetch failed''), delete_fault = (\<lambda>_. None)\<rparr>"

definition no_token_data :: token_response where
  "no_token_data =
     \<lparr>tr_access_token = None, tr_refresh_token = None, tr_token_type = None,
      tr_expires_in = None, tr_scope = None\<rparr>"

definition stored_token ::
  "string \<Rightarrow> string \<Rightarrow> string \<Rightarrow> timestamp option \<Rightarrow> timestamp \<Rightarrow> token_row" where
  "stored_token userId platform tok expiry updated =
     \<lparr>user_id = Some (JStr userId), platform_id = platform, access_token = Some tok,
      refresh_token = None, token_type = ''Bearer'', expires_at = expiry, scope = None,
      token_data = no_token_data, updated_at = updated\<rparr>"

text \<open>
  Three rows for (u1, spotify), written with \<open>updated_at\<close> 20, 30 and 10 in that
  order, and one row of another user between them.
\<close>

definition three_duplicates :: "token_row list" where
  "three_duplicates =
     [stored_token ''u1'' ''spotify'' ''tok-b'' None 20,
      stored_token ''u2'' ''spotify'' ''tok-x'' None 25,
      stored_token ''u1'' ''spotify'' ''tok-c'' None 30,
      stored_token ''u1'' ''spotify'' ''tok-a'' None 10]"

text \<open>
  Three rows for (u1, spotify) of which two share the newest \<open>updated_at\<close>: written
  with \<open>updated_at\<close> 30, 10 and 30 in that order.
\<close>

definition tied_duplicates :: "token_row list" where
  "tied_duplicates =
     [stored_token ''u1'' ''spotify'' ''tok-a'' None 30,
      stored_token ''u1'' ''spotify'' ''tok-b'' None 10,
      stored_token ''u1'' ''spotify'' ''tok-c'' None 30]"

subsection \<open>A small world for the scenarios of the callback\<close>

definition spotify_config :: config_row where
  "spotify_config =
     \<lparr>cfg_platform_id = ''spotify'', enabled = True, client_id = Some ''cid'',
      client_secret = Some ''s3cret'', redirect_uri = Some ''https://api.example/cb'',
      cfg_scopes = None, api_endpoint = None\<rparr>"


definition configured_db :: database where
  "configured_db =
     \<lparr>platform_oauth_configs = [spotify_config], platform_settings = [], oauth_tokens = []\<rparr>"


definition token_without_expiry :: token_response where
  "token_without_expiry =
     \<lparr>tr_access_token = Some ''AT'', tr_refresh_token = Some ''RT'', tr_token_type = None,
      tr_expires_in = None, tr_scope = None\<rparr>"

definition calm_env :: callback_env where
  "calm_env =
     \<lparr>FRONTEND_URL = None, clock = 1000, config_fault = None, upsert_fault = None,
      provider = (\<lambda>_. Body token_without_expiry),
      engine_message = (\<lambda>_. Wellformed ''engine error'')\<rparr>"

text \<open>
  The same world with the messages of V8. V8 names the unexpected token of
  \<open>JSON.parse\<close> by one UTF-16 code unit: when the text starts with a character
  outside the Basic Multilingual Plane (a four-byte sequence), the parse fails at that
  character and the message holds its high surrogate alone. The other messages are
  abbreviated.
\<close>

definition v8_message :: "engine_error \<Rightarrow> message_text" where
  "v8_message e =
     (case e of
        SyntaxError_JSON text \<Rightarrow>
          (case text of
             [] \<Rightarrow> Wellformed ''Unexpected end of JSON input''
           | c # cs \<Rightarrow>
               if 0xF0 \<le> (of_char c :: nat) then Lone_surrogate
               else Wellformed ''Unexpected token'')
      | TypeError_destructure \<Rightarrow> Wellformed ''Cannot destructure property''
      | TypeError_property \<Rightarrow> Wellformed ''Cannot read properties of null''
      | RangeError_date \<Rightarrow> Wellformed ''Invalid time value''
      | URIError_malformed \<Rightarrow> Wellformed ''URI malformed'')"

definition v8_env :: callback_env where
  "v8_env = calm_env\<lparr>engine_message := v8_message\<rparr>"

text \<open>
  The state \<open>8J+YgA==\<close>: the base64 of the four bytes F0 9F 98 80, one character
  outside the Basic Multilingual Plane and no JSON.
\<close>

definition state_astral :: string where
  "state_astral = ''8J+YgA==''"

text \<open>
  Three state parameters: the base64 of \<open>{"userId":"u1","platform":"spotify"}\<close>, of
  \<open>{"platform":"spotify"}\<close> and of \<open>{"userId":"u1","platformId":"spotify"}\<close>.
\<close>

definition state_u1_spotify :: string where
  "state_u1_spotify = ''eyJ1c2VySWQiOiJ1MSIsInBsYXRmb3JtIjoic3BvdGlmeSJ9''"

definition state_without_user :: string where
  "state_without_user = ''eyJwbGF0Zm9ybSI6InNwb3RpZnkifQ==''"

definition state_with_platformId :: string where
  "state_with_platformId = ''eyJ1c2VySWQiOiJ1MSIsInBsYXRmb3JtSWQiOiJzcG90aWZ5In0=''"

definition callback_of :: "string \<Rightarrow> string \<Rightarrow> callback_request" where
  "callback_of platform state =
     \<lparr>params_platform = platform, query_code = Some ''abc'', query_state = Some state,
      query_error = None\<rparr>"

section \<open>Properties of the token store\<close>

lemma set_select_tokens:
  "set (select_tokens u p rows) = {r \<in> set rows. row_matches u p r}"
  by (auto simp: select_tokens_def)

lemma cleanup_keeps:
  "r \<in> set rows \<Longrightarrow> updated_at r \<notin> updated_at ` set ts \<Longrightarrow>
   r \<in> set (cleanup_duplicates env u p ts rows)"
  by (induction ts arbitrary: rows) (auto simp: delete_tokens_def split: option.splits)

lemma cleanup_all_ok:
  "\<forall>t \<in> set ts. delete_fault env (updated_at t) = None \<Longrightarrow>
   cleanup_duplicates env u p ts rows =
     filter (\<lambda>r. \<not> (row_matches u p r \<and> updated_at r \<in> updated_at ` set ts)) rows"
proof (induction ts arbitrary: rows)
  case Nil
  then show ?case by simp
next
  case (Cons t ts)
  then show ?case
    by (auto simp: delete_tokens_def intro!: filter_cong)
qed

lemma sort_key_singleton: "sort_key f xs = [a] \<Longrightarrow> xs = [a]"
proof -
  assume a: "sort_key f xs = [a]"
  then have "length xs = 1"
    using length_sort [of f xs] by simp
  then obtain x where "xs = [x]"
    by (cases xs) auto
  with a show ?thesis by simp
qed

lemma select_tokens_single:
  assumes sel: "select_tokens u p rows = newest # rest"
    and uniq: "updated_at newest \<notin> updated_at ` set rest"
  shows "select_tokens u p (filter (\<lambda>r. r \<notin> set rest) rows) = [newest]"
proof -
  let ?m = "filter (row_matches u p) rows"
  let ?f = "\<lambda>r. - updated_at r"
  have srt: "sort_key ?f ?m = newest # rest"
    using sel by (simp add: select_tokens_def)
  have nr: "newest \<notin> set rest"
    using uniq by blast
  have "sort_key ?f (filter (\<lambda>r. r \<notin> set rest) ?m) =
          filter (\<lambda>r. r \<notin> set rest) (sort_key ?f ?m)"
    by (rule filter_sort [symmetric])
  also have "\<dots> = [newest]"
    using nr by (simp add: srt)
  finally have "filter (\<lambda>r. r \<notin> set rest) ?m = [newest]"
    by (rule sort_key_singleton)
  moreover have "filter (row_matches u p) (filter (\<lambda>r. r \<notin> set rest) rows) =
                   filter (\<lambda>r. r \<notin> set rest) ?m"
    by (simp add: conj_commute)
  ultimately show ?thesis
    by (simp add: select_tokens_def)
qed

lemma cleanup_all_ok_rest:
  assumes sel: "select_tokens u p rows = newest # rest"
    and uniq: "updated_at newest \<notin> updated_at ` set rest"
    and ok: "\<forall>t \<in> set rest. delete_fault env (updated_at t) = None"
  shows "cleanup_duplicates env u p rest rows = filter (\<lambda>r. r \<notin> set rest) rows"
proof -
  have s: "set (newest # rest) = {r \<in> set rows. row_matches u p r}"
    using sel set_select_tokens [of u p rows] by simp
  have "(row_matches u p r \<and> updated_at r \<in> updated_at ` set rest) \<longleftrightarrow> r \<in> set rest"
    if "r \<in> set rows" for r
  proof
    assume a: "row_matches u p r \<and> updated_at r \<in> updated_at ` set rest"
    then have "r \<in> set (newest # rest)" using s that by blast
    moreover from a uniq have "r \<noteq> newest" by blast
    ultimately show "r \<in> set rest" by simp
  next
    assume "r \<in> set rest"
    then show "row_matches u p r \<and> updated_at r \<in> updated_at ` set rest"
      using s by auto
  qed
  then have "filter (\<lambda>r. \<not> (row_matches u p r \<and> updated_at r \<in> updated_at ` set rest)) rows
           = filter (\<lambda>r. r \<notin> set rest) rows"
    by (intro filter_cong) auto
  then show ?thesis
    using cleanup_all_ok [OF ok] by simp
qed

lemma reconcile_then_repeat:
  assumes sel: "select_tokens userId platform rows = newest # rest"
    and dist: "updated_at newest \<notin> updated_at ` set rest"
    and env1: "select_fault env1 = None" "\<forall>t \<in> set rest. delete_fault env1 (updated_at t) = None"
    and env2: "select_fault env2 = None"
    and live: "not_expired now1 newest" "not_expired now2 newest"
    and first: "first = getUserOAuthToken env1 now1 rows userId platform"
    and second: "second = getUserOAuthToken env2 now2 (rows_after first) userId platform"
  shows "returned first = access_token newest
       \<and> deletes_issued first = map updated_at rest
       \<and> rows_after first = filter (\<lambda>r. r \<notin> set rest) rows
       \<and> newest \<in> set (rows_after first)
       \<and> returned second = access_token newest
       \<and> deletes_issued second = []
       \<and> rows_after second = rows_after first"
proof -
  have r1: "rows_after first = filter (\<lambda>r. r \<notin> set rest) rows"
    using first sel env1 cleanup_all_ok_rest [OF sel dist env1(2)]
    by (simp add: getUserOAuthToken_def)
  have sel2: "select_tokens userId platform (rows_after first) = [newest]"
    using select_tokens_single [OF sel dist] r1 by simp
  have "newest \<in> set (select_tokens userId platform (rows_after first))"
    using sel2 by simp
  then have mem: "newest \<in> set (rows_after first)"
    by (simp add: set_select_tokens)
  have a: "returned first = access_token newest \<and> deletes_issued first = map updated_at rest"
    using first sel env1 live(1)
    by (simp add: getUserOAuthToken_def not_expired_def split: option.splits)
  have b: "returned second = access_token newest \<and> deletes_issued second = []
         \<and> rows_after second = rows_after first"
    using second sel2 env2 live(2)
    by (simp add: getUserOAuthToken_def not_expired_def split: option.splits)
  show ?thesis using r1 mem a b by simp
qed

lemma select_three_duplicates:
  "select_tokens ''u1'' ''spotify'' three_duplicates =
     [stored_token ''u1'' ''spotify'' ''tok-c'' None 30,
      stored_token ''u1'' ''spotify'' ''tok-b'' None 20,
      stored_token ''u1'' ''spotify'' ''tok-a'' None 10]"
  by (simp add: select_tokens_def three_duplicates_def stored_token_def row_matches_def)

text \<open>
  C3. When the select succeeds and the newest row of the key carries an \<open>expires_at\<close>
  strictly before the current time, \<open>getUserOAuthToken\<close> returns \<open>null\<close>. The expiry
  test deletes nothing: the table afterwards is exactly what the clean-up of duplicates
  left, so with no duplicate it is the table as it was, and the expired row is still a
  row of it whenever no duplicate shares its \<open>updated_at\<close>.
\<close>

theorem getUserOAuthToken_expired_returns_null:
  assumes "select_fault env = None"
    and "select_tokens userId platform rows = tokenData # rest"
    and "expires_at tokenData = Some e"
    and "e < now"
  shows "returned (getUserOAuthToken env now rows userId platform) = None
       \<and> rows_after (getUserOAuthToken env now rows userId platform) =
           cleanup_duplicates env userId platform rest rows
       \<and> (updated_at tokenData \<notin> updated_at ` set rest \<longrightarrow>
            tokenData \<in> set (rows_after (getUserOAuthToken env now rows userId platform)))
       \<and> (rest = [] \<longrightarrow> rows_after (getUserOAuthToken env now rows userId platform) = rows)"
proof -
  have "tokenData \<in> set (select_tokens userId platform rows)"
    using assms(2) by simp
  then have mem: "tokenData \<in> set rows"
    by (simp add: set_select_tokens)
  show ?thesis
    using assms mem by (auto simp: getUserOAuthToken_def intro: cleanup_keeps)
qed

theorem getUserOAuthToken_expired_returns_null_witness:
  "returned (getUserOAuthToken reachable_store 1000
      [stored_token ''u1'' ''spotify'' ''tok'' (Some 999) 5] ''u1'' ''spotify'') = None
   \<and> rows_after (getUserOAuthToken reachable_store 1000
      [stored_token ''u1'' ''spotify'' ''tok'' (Some 999) 5] ''u1'' ''spotify'')
     = [stored_token ''u1'' ''spotify'' ''tok'' (Some 999) 5]"
proof -
  let ?r = "stored_token ''u1'' ''spotify'' ''tok'' (Some 999) 5"
  have a: "select_fault reachable_store = None"
    by (simp add: reachable_store_def)
  have b: "select_tokens ''u1'' ''spotify'' [?r] = ?r # []"
    by (simp add: select_tokens_def stored_token_def row_matches_def)
  have c: "expires_at ?r = Some 999"
    by (simp add: stored_token_def)
  have d: "(999::int) < 1000"
    by simp
  show ?thesis
    using getUserOAuthToken_expired_returns_null [OF a b c d] by simp
qed

text \<open>
  Where the newest row of a key is the only one with its \<open>updated_at\<close>, the store
  answers and the newest row is not expired: the first call returns the newest row's
  access token, issues one delete per older row and leaves the table without exactly
  those rows; a second call returns the same token, issues no delete and changes
  nothing.
\<close>

lemma reconcile_when_newest_unique:
  assumes "select_tokens userId platform rows = newest # rest"
    and "updated_at newest \<notin> updated_at ` set rest"
    and "select_fault env1 = None"
    and "\<forall>t \<in> set rest. delete_fault env1 (updated_at t) = None"
    and "select_fault env2 = None"
    and "not_expired now1 newest"
    and "not_expired now2 newest"
  shows "(let first = getUserOAuthToken env1 now1 rows userId platform;
              second = getUserOAuthToken env2 now2 (rows_after first) userId platform
          in returned first = access_token newest
           \<and> deletes_issued first = map updated_at rest
           \<and> rows_after first = filter (\<lambda>r. r \<notin> set rest) rows
           \<and> newest \<in> set (rows_after first)
           \<and> returned second = access_token newest
           \<and> deletes_issued second = []
           \<and> rows_after second = rows_after first)"
  unfolding Let_def
  by (rule reconcile_then_repeat [OF assms refl refl])

lemma reconcile_three_duplicates:
  "(let first = getUserOAuthToken reachable_store 1000 three_duplicates ''u1'' ''spotify'';
        second = getUserOAuthToken reachable_store 2000 (rows_after first) ''u1'' ''spotify''
    in returned first = Some ''tok-c''
     \<and> deletes_issued first = [20, 10]
     \<and> rows_after first =
          [stored_token ''u2'' ''spotify'' ''tok-x'' None 25,
           stored_token ''u1'' ''spotify'' ''tok-c'' None 30]
     \<and> returned second = Some ''tok-c''
     \<and> deletes_issued second = []
     \<and> rows_after second = rows_after first)"
proof -
  have d: "updated_at (stored_token ''u1'' ''spotify'' ''tok-c'' None 30) \<notin> updated_at `
      set [stored_token ''u1'' ''spotify'' ''tok-b'' None 20,
           stored_token ''u1'' ''spotify'' ''tok-a'' None 10]"
    by (simp add: stored_token_def)
  have s: "select_fault reachable_store = None"
    by (simp add: reachable_store_def)
  have f: "\<forall>t \<in> set [stored_token ''u1'' ''spotify'' ''tok-b'' None 20,
                      stored_token ''u1'' ''spotify'' ''tok-a'' None 10].
             delete_fault reachable_store (updated_at t) = None"
    by (simp add: reachable_store_def)
  have l1: "not_expired 1000 (stored_token ''u1'' ''spotify'' ''tok-c'' None 30)"
    and l2: "not_expired 2000 (stored_token ''u1'' ''spotify'' ''tok-c'' None 30)"
    by (simp_all add: not_expired_def stored_token_def)
  have flt: "filter (\<lambda>r. r \<notin> set [stored_token ''u1'' ''spotify'' ''tok-b'' None 20,
                                    stored_token ''u1'' ''spotify'' ''tok-a'' None 10])
               three_duplicates =
             [stored_token ''u2'' ''spotify'' ''tok-x'' None 25,
              stored_token ''u1'' ''spotify'' ''tok-c'' None 30]"
    by (simp add: three_duplicates_def stored_token_def)
  have acc: "access_token (stored_token ''u1'' ''spotify'' ''tok-c'' None 30) = Some ''tok-c''"
    and upd: "map updated_at [stored_token ''u1'' ''spotify'' ''tok-b'' None 20,
                             stored_token ''u1'' ''spotify'' ''tok-a'' None 10] = [20, 10]"
    by (simp_all add: stored_token_def)
  show ?thesis
    using reconcile_when_newest_unique [OF select_three_duplicates d s f s l1 l2]
    unfolding Let_def flt acc upd by blast
qed

lemma select_tied_duplicates:
  "select_tokens ''u1'' ''spotify'' tied_duplicates =
     [stored_token ''u1'' ''spotify'' ''tok-a'' None 30,
      stored_token ''u1'' ''spotify'' ''tok-c'' None 30,
      stored_token ''u1'' ''spotify'' ''tok-b'' None 10]"
  by (simp add: select_tokens_def tied_duplicates_def stored_token_def row_matches_def)

text \<open>
  C4. The clean-up is meant to keep the newest row (line 112: keep the first, delete
  the rest) and so to leave a table on which a second call returns the same row. It
  deletes by \<open>updated_at\<close>, though. On the table of three duplicates written with
  \<open>updated_at\<close> 30, 10 and 30, the first call returns the token of the row it read
  first, and its deletes for 30 and 10 remove all three rows, that row among them; the
  second call finds no row and returns \<open>null\<close>.
\<close>

theorem getUserOAuthToken_tie_deletes_newest:
  "(let first = getUserOAuthToken reachable_store 1000 tied_duplicates ''u1'' ''spotify'';
        second = getUserOAuthToken reachable_store 2000 (rows_after first) ''u1'' ''spotify''
    in returned first = Some ''tok-a''
     \<and> deletes_issued first = [30, 10]
     \<and> rows_after first = []
     \<and> returned second = None
     \<and> deletes_issued second = [])"
proof -
  have r: "cleanup_duplicates reachable_store ''u1'' ''spotify''
             [stored_token ''u1'' ''spotify'' ''tok-c'' None 30,
              stored_token ''u1'' ''spotify'' ''tok-b'' None 10] tied_duplicates = []"
    by (simp add: reachable_store_def delete_tokens_def tied_duplicates_def stored_token_def
        row_matches_def)
  have f: "getUserOAuthToken reachable_store 1000 tied_duplicates ''u1'' ''spotify'' =
             \<lparr>returned = Some ''tok-a'', rows_after = [], deletes_issued = [30, 10]\<rparr>"
  proof -
    have sf: "select_fault reachable_store = None"
      by (simp add: reachable_store_def)
    have a: "access_token (stored_token ''u1'' ''spotify'' ''tok-a'' None 30) = Some ''tok-a''"
      and e: "expires_at (stored_token ''u1'' ''spotify'' ''tok-a'' None 30) = None"
      and u: "map updated_at [stored_token ''u1'' ''spotify'' ''tok-c'' None 30,
                             stored_token ''u1'' ''spotify'' ''tok-b'' None 10] = [30, 10]"
      by (simp_all add: stored_token_def)
    show ?thesis
      by (simp add: getUserOAuthToken_def sf select_tied_duplicates r a e u
          del: cleanup_duplicates.simps map_eq_conv list.map)
  qed
  show ?thesis
    unfolding Let_def f
    by (simp add: getUserOAuthToken_def reachable_store_def select_tokens_def)
qed

text \<open>
  C5, as the code has it. When the select fails, by a returned error or by a thrown one,
  \<open>getUserOAuthToken\<close> returns the same \<open>null\<close> that it returns for a key without a
  token: no delete is issued, the table is untouched, and the return value tells the
  caller nothing about the failure.
\<close>

theorem getUserOAuthToken_store_failure_returns_null:
  assumes "select_fault env = Some fault"
  shows "getUserOAuthToken env now rows userId platform =
           \<lparr>returned = None, rows_after = rows, deletes_issued = []\<rparr>
       \<and> returned (getUserOAuthToken env now rows userId platform) =
           returned (getUserOAuthToken reachable_store now [] userId platform)"
  using assms
  by (simp add: getUserOAuthToken_def reachable_store_def select_tokens_def)

theorem getUserOAuthToken_store_failure_returns_null_witness:
  "getUserOAuthToken unreachable_store 1000 three_duplicates ''u1'' ''spotify'' =
     \<lparr>returned = None, rows_after = three_duplicates, deletes_issued = []\<rparr>"
proof -
  have a: "select_fault unreachable_store = Some (Returned_error ''fetch failed'')"
    by (simp add: unreachable_store_def)
  show ?thesis
    using getUserOAuthToken_store_failure_returns_null [OF a] by simp
qed

text \<open>
  The claim as written asks for a failure the caller can tell from a missing token. A
  store that cannot be reached and a reachable store with no row for the key give the
  caller the same result.
\<close>

theorem getUserOAuthToken_store_failure_counterexample:
  "getUserOAuthToken unreachable_store 1000
       [stored_token ''u2'' ''spotify'' ''tok-x'' None 25] ''u1'' ''spotify''
   = getUserOAuthToken reachable_store 1000
       [stored_token ''u2'' ''spotify'' ''tok-x'' None 25] ''u1'' ''spotify''"
  by (simp add: getUserOAuthToken_def unreachable_store_def reachable_store_def
      select_tokens_def row_matches_def stored_token_def)

section \<open>Properties of the parser\<close>

text \<open>Every parser consumes input, so the two tests on lengths in the recursion never fail.\<close>

lemma lex_int_shorter: "lex_int s = Some (t, r) \<Longrightarrow> length r < length s"
proof -
  assume a: "lex_int s = Some (t, r)"
  then obtain c cs where s: "s = c # cs"
    by (cases s) (simp_all add: lex_int_def)
  show ?thesis
  proof (cases "c = CHR ''0''")
    case True
    with a s show ?thesis by (simp add: lex_int_def)
  next
    case False
    with a s have d: "is_digit c" and r: "r = dropWhile is_digit (c # cs)"
      by (auto simp: lex_int_def split: if_splits)
    from d r have "r = dropWhile is_digit cs" by simp
    then show ?thesis
      using s length_dropWhile_le [of is_digit cs] by simp
  qed
qed

lemma lex_frac_shorter: "lex_frac s = Some (t, r) \<Longrightarrow> length r \<le> length s"
  using length_dropWhile_le [of is_digit "tl s"]
  by (auto simp: lex_frac_def split: list.splits if_splits)

lemma lex_exp_shorter: "lex_exp s = Some (t, r) \<Longrightarrow> length r \<le> length s"
proof (cases s)
  case Nil
  assume "lex_exp s = Some (t, r)"
  with Nil show ?thesis by (simp add: lex_exp_def)
next
  case (Cons c cs)
  assume a: "lex_exp s = Some (t, r)"
  show ?thesis
  proof (cases "c = CHR ''e'' \<or> c = CHR ''E''")
    case False
    with a Cons show ?thesis by (auto simp: lex_exp_def)
  next
    case True
    from a Cons True obtain ds where "r = dropWhile is_digit ds" and "length ds \<le> length cs"
      by (auto simp: lex_exp_def Let_def split: list.splits if_splits prod.splits)
    then show ?thesis
      using Cons length_dropWhile_le [of is_digit ds] by simp
  qed
qed

lemma lex_number_shorter: "lex_number s = Some (t, r) \<Longrightarrow> length r < length s"
proof -
  assume a: "lex_number s = Some (t, r)"
  obtain sign s0 where p: "(case s of
           c # cs \<Rightarrow> if c = CHR ''-'' then ([c], cs) else ([], s)
         | [] \<Rightarrow> ([], s)) = (sign, s0)"
    by (cases "(case s of
           c # cs \<Rightarrow> if c = CHR ''-'' then ([c], cs) else ([], s)
         | [] \<Rightarrow> ([], s))") 
  then have l0: "length s0 \<le> length s"
    by (auto split: list.splits if_splits)
  from a p obtain ip s1 fp s2 ep where
    "lex_int s0 = Some (ip, s1)" "lex_frac s1 = Some (fp, s2)" "lex_exp s2 = Some (ep, r)"
    by (auto simp: lex_number_def split: option.splits)
  then show ?thesis
    using l0 by (auto dest!: lex_int_shorter lex_frac_shorter lex_exp_shorter)
qed

lemma parse_scalar_shorter: "parse_scalar s = Some (v, r) \<Longrightarrow> length r < length s"
  by (cases s)
    (auto simp: parse_scalar_def split: if_splits
      dest!: parse_string_shorter lex_number_shorter)

lemma parse_shorter:
  "parse_value s = Some (v, r) \<Longrightarrow> length r < length s"
  "parse_elements s1 = Some (vs, r1) \<Longrightarrow> length r1 < length s1"
  "parse_members s2 = Some (ms, r2) \<Longrightarrow> length r2 < length s2"
proof (induction s and s1 and s2 arbitrary: v r and vs r1 and ms r2
    rule: parse_value_parse_elements_parse_members.induct)
  case (1 s)
  from "1.prems" obtain c cs where sk: "skip_ws s = c # cs"
    by (subst (asm) parse_value.simps) (auto split: list.splits)
  note len = skip_ws_shorter [OF sk]
  show ?case
  proof (cases "c = CHR ''[''")
    case True
    from "1.prems" sk True obtain c' cs' where sk': "skip_ws cs = c' # cs'"
      by (subst (asm) parse_value.simps) (auto split: list.splits)
    show ?thesis
    proof (cases "c' = CHR '']''")
      case True
      with "1.prems" sk \<open>c = CHR ''[''\<close> sk' have "r = cs'"
        by (subst (asm) parse_value.simps) simp
      with skip_ws_shorter [OF sk'] len show ?thesis by simp
    next
      case False
      with "1.prems" sk \<open>c = CHR ''[''\<close> sk' obtain vs where "parse_elements cs = Some (vs, r)"
        by (subst (asm) parse_value.simps) auto
      from "1.IH"(1) [OF sk \<open>c = CHR ''[''\<close> sk' False this] len show ?thesis by simp
    qed
  next
    case nb: False
    show ?thesis
    proof (cases "c = CHR ''{''")
      case True
      from "1.prems" sk nb True obtain c' cs' where sk': "skip_ws cs = c' # cs'"
        by (subst (asm) parse_value.simps) (auto split: list.splits)
      show ?thesis
      proof (cases "c' = CHR ''}''")
        case True
        with "1.prems" sk nb \<open>c = CHR ''{''\<close> sk' have "r = cs'"
          by (subst (asm) parse_value.simps) simp
        with skip_ws_shorter [OF sk'] len show ?thesis by simp
      next
        case False
        with "1.prems" sk nb \<open>c = CHR ''{''\<close> sk' obtain ms where "parse_members cs = Some (ms, r)"
          by (subst (asm) parse_value.simps) auto
        from "1.IH"(2) [OF sk nb \<open>c = CHR ''{''\<close> sk' False this] len show ?thesis by simp
      qed
    next
      case False
      with "1.prems" sk nb have "parse_scalar (c # cs) = Some (v, r)"
        by (subst (asm) parse_value.simps) simp
      from parse_scalar_shorter [OF this] len show ?thesis by simp
    qed
  qed
next
  case (2 s)
  from "2.prems" obtain v r where pv: "parse_value s = Some (v, r)"
    by (subst (asm) parse_elements.simps) (auto split: option.splits)
  note l1 = "2.IH"(1) [OF pv]
  from "2.prems" pv obtain c cs where sk: "skip_ws r = c # cs"
    by (subst (asm) parse_elements.simps) (auto split: list.splits)
  note l2 = skip_ws_shorter [OF sk]
  show ?case
  proof (cases "c = CHR '',''")
    case True
    with "2.prems" pv sk obtain vs' where g: "length cs < length s"
      and pe: "parse_elements cs = Some (vs', r1)"
      by (subst (asm) parse_elements.simps) (auto split: if_splits option.splits)
    from "2.IH"(2) [OF pv refl sk True g pe] g show ?thesis by simp
  next
    case False
    with "2.prems" pv sk have "r1 = cs"
      by (subst (asm) parse_elements.simps) (auto split: if_splits)
    with l1 l2 show ?thesis by simp
  qed
next
  case (3 s)
  from "3.prems" obtain q sa where sk: "skip_ws s = q # sa"
    by (subst (asm) parse_members.simps) (auto split: list.splits)
  from "3.prems" sk have q: "\<not> q \<noteq> dquote"
    by (subst (asm) parse_members.simps) (auto split: if_splits)
  from "3.prems" sk q obtain k sb where ps: "parse_string sa = Some (k, sb)"
    by (subst (asm) parse_members.simps) (auto split: option.splits)
  from "3.prems" sk q ps obtain colon sc where sk2: "skip_ws sb = colon # sc"
    by (subst (asm) parse_members.simps) (auto split: list.splits)
  from "3.prems" sk q ps sk2 have col: "\<not> colon \<noteq> CHR '':''"
    by (subst (asm) parse_members.simps) (auto split: if_splits)
  from "3.prems" sk q ps sk2 col obtain v r where pv: "parse_value sc = Some (v, r)"
    by (subst (asm) parse_members.simps) (auto split: option.splits)
  from "3.prems" sk q ps sk2 col pv obtain c cs where sk3: "skip_ws r = c # cs"
    by (subst (asm) parse_members.simps) (auto split: list.splits)
  have l: "length r < length s"
    using "3.IH"(1) [OF sk q ps refl sk2 col pv]
      skip_ws_shorter [OF sk] skip_ws_shorter [OF sk2] parse_string_shorter [OF ps]
    by simp
  show ?case
  proof (cases "c = CHR '',''")
    case True
    with "3.prems" sk q ps sk2 col pv sk3 obtain ms' where g: "length cs < length s"
      and pm: "parse_members cs = Some (ms', r2)"
      by (subst (asm) parse_members.simps) (auto split: if_splits option.splits)
    from "3.IH"(2) [OF sk q ps refl sk2 col pv refl sk3 True g pm] g
    show ?thesis by simp
  next
    case False
    with "3.prems" sk q ps sk2 col pv sk3 have "r2 = cs"
      by (subst (asm) parse_members.simps) (auto split: if_splits)
    with l skip_ws_shorter [OF sk3] show ?thesis by simp
  qed
qed

lemma parse_elements_unguarded:
  "parse_elements s =
     (case parse_value s of
        None \<Rightarrow> None
      | Some (v, r) \<Rightarrow>
          (case skip_ws r of
             [] \<Rightarrow> None
           | c # cs \<Rightarrow>
               if c = CHR '','' then
                 (case parse_elements cs of
                    None \<Rightarrow> None
                  | Some (vs, r') \<Rightarrow> Some (v # vs, r'))
               else if c = CHR '']'' then Some ([v], cs)
               else None))"
proof (cases "parse_value s")
  case None
  then show ?thesis by (subst parse_elements.simps) simp
next
  case (Some p)
  obtain v r where p: "p = (v, r)" by (cases p)
  show ?thesis
  proof (cases "skip_ws r")
    case Nil
    with Some p show ?thesis by (subst parse_elements.simps) simp
  next
    case (Cons c cs)
    have "length cs < length s"
      using parse_shorter(1) [of s v r] Some p skip_ws_shorter [OF Cons] by simp
    with Some p Cons show ?thesis by (subst parse_elements.simps) simp
  qed
qed

lemma parse_members_unguarded:
  "parse_members s =
     (case skip_ws s of
        [] \<Rightarrow> None
      | q # s1 \<Rightarrow>
          if q \<noteq> dquote then None
          else (case parse_string s1 of
                  None \<Rightarrow> None
                | Some (k, s2) \<Rightarrow>
                    (case skip_ws s2 of
                       [] \<Rightarrow> None
                     | colon # s3 \<Rightarrow>
                         if colon \<noteq> CHR '':'' then None
                         else (case parse_value s3 of
                                 None \<Rightarrow> None
                               | Some (v, r) \<Rightarrow>
                                   (case skip_ws r of
                                      [] \<Rightarrow> None
                                    | c # cs \<Rightarrow>
                                        if c = CHR '','' then
                                          (case parse_members cs of
                                             None \<Rightarrow> None
                                           | Some (ms, r') \<Rightarrow> Some ((k, v) # ms, r'))
                                        else if c = CHR ''}'' then Some ([(k, v)], cs)
                                        else None)))))"
proof -
  have g: "length cs < length s"
    if "skip_ws s = q # s1" "parse_string s1 = Some (k, s2)" "skip_ws s2 = colon # s3"
      "parse_value s3 = Some (v, r)" "skip_ws r = c # cs"
    for q s1 k s2 colon s3 v r c cs
    using that skip_ws_shorter [of s q s1] parse_string_shorter [of s1 k s2]
      skip_ws_shorter [of s2 colon s3] parse_shorter(1) [of s3 v r] skip_ws_shorter [of r c cs]
    by simp
  show ?thesis
    by (subst parse_members.simps)
      (auto split: list.splits option.splits simp: g)
qed

section \<open>Properties of the state codec\<close>

subsection \<open>Base64 decodes what it encodes\<close>

lemma b64_arith1:
  fixes x y :: nat
  assumes "y < 256"
  shows "x div 4 * 4 + (x mod 4 * 16 + y div 16) div 16 = x"
proof -
  have "y div 16 < 16" using assms by simp
  then have "(x mod 4 * 16 + y div 16) div 16 = x mod 4" by simp
  then show ?thesis by simp
qed

lemma b64_arith2:
  fixes x y z :: nat
  assumes "y < 256" "z < 256"
  shows "(x mod 4 * 16 + y div 16) mod 16 * 16 + (y mod 16 * 4 + z div 64) div 4 = y"
proof -
  have "z div 64 < 4" using assms by simp
  then have a: "(y mod 16 * 4 + z div 64) div 4 = y mod 16" by simp
  have "y div 16 < 16" using assms by simp
  then have b: "(x mod 4 * 16 + y div 16) mod 16 = y div 16" by simp
  show ?thesis unfolding a b by simp
qed

lemma b64_arith3:
  fixes y z :: nat
  assumes "z < 256"
  shows "(y mod 16 * 4 + z div 64) mod 4 * 64 + z mod 64 = z"
proof -
  have "z div 64 < 4" using assms by simp
  then have a: "(y mod 16 * 4 + z div 64) mod 4 = z div 64" by simp
  show ?thesis unfolding a by simp
qed

lemma b64_arith4:
  fixes x y :: nat
  assumes "y < 256"
  shows "(x mod 4 * 16 + y div 16) mod 16 * 16 + (y mod 16 * 4) div 4 = y"
proof -
  have "y div 16 < 16" using assms by simp
  then have b: "(x mod 4 * 16 + y div 16) mod 16 = y div 16" by simp
  show ?thesis unfolding b by simp
qed

lemma char_of_nat_eq_iff: "char_of (m::nat) = c \<longleftrightarrow> m mod 256 = of_char c"
  by (metis char_of_char of_char_of)

lemma unbase64_base64_char:
  assumes "n < 64"
  shows "unbase64 (base64_char n) = Some n"
proof -
  consider "n < 26" | "26 \<le> n" "n < 52" | "52 \<le> n" "n < 62" | "n = 62" | "n = 63"
    using assms by linarith
  then show ?thesis
    by cases (auto simp: unbase64_def base64_char_def Let_def)
qed

lemma base64_char_not_pad:
  assumes "n < 64"
  shows "base64_char n \<noteq> CHR ''=''"
proof -
  consider "n < 26" | "26 \<le> n" "n < 52" | "52 \<le> n" "n < 62" | "n = 62" | "n = 63"
    using assms by linarith
  then show ?thesis
    by cases (simp_all add: base64_char_def char_of_nat_eq_iff)
qed

lemma sextets_step:
  assumes "n < 64"
  shows "sextets (base64_char n # cs) = n # sextets cs"
  using assms by (simp add: sextets_def unbase64_base64_char base64_char_not_pad)

lemma sextets_pad:
  "sextets (CHR ''='' # cs) = []" and "sextets [] = []"
  by (simp_all add: sextets_def)

lemma sextet_bounds:
  fixes x y z :: nat
  assumes "x < 256" "y < 256" "z < 256"
  shows "x div 4 < 64" and "x mod 4 * 16 + y div 16 < 64" and "y mod 16 * 4 + z div 64 < 64"
    and "z mod 64 < 64" and "x mod 4 * 16 < 64" and "y mod 16 * 4 < 64"
proof -
  have "y div 16 < 16" "z div 64 < 4" "x mod 4 < 4" "y mod 16 < 16"
    using assms by simp_all
  then show "x mod 4 * 16 + y div 16 < 64" "y mod 16 * 4 + z div 64 < 64"
    "x mod 4 * 16 < 64" "y mod 16 * 4 < 64"
    by linarith+
  show "x div 4 < 64" using assms by simp
  show "z mod 64 < 64" by simp
qed

lemma base64_decode_encode: "base64_decode (base64_encode bs) = bs"
proof (induction bs rule: base64_encode.induct)
  case (1 a b c rest)
  let ?x = "of_char a :: nat" and ?y = "of_char b :: nat" and ?z = "of_char c :: nat"
  have lt: "?x < 256" "?y < 256" "?z < 256" by simp_all
  note sb = sextet_bounds [OF lt]
  have "base64_decode (base64_encode (a # b # c # rest)) =
          char_of (?x div 4 * 4 + (?x mod 4 * 16 + ?y div 16) div 16) #
          char_of ((?x mod 4 * 16 + ?y div 16) mod 16 * 16 + (?y mod 16 * 4 + ?z div 64) div 4) #
          char_of ((?y mod 16 * 4 + ?z div 64) mod 4 * 64 + ?z mod 64) #
          base64_decode (base64_encode rest)"
    by (simp add: base64_decode_def Let_def sextets_step sb)
  also have "\<dots> = a # b # c # rest"
    by (simp only: b64_arith1 [OF lt(2)] b64_arith2 [OF lt(2,3)] b64_arith3 [OF lt(3)]
        char_of_char "1.IH")
  finally show ?case .
next
  case (2 a b)
  let ?x = "of_char a :: nat" and ?y = "of_char b :: nat"
  have lt: "?x < 256" "?y < 256" "(0::nat) < 256" by simp_all
  note sb = sextet_bounds [OF lt]
  have "base64_decode (base64_encode [a, b]) =
          [char_of (?x div 4 * 4 + (?x mod 4 * 16 + ?y div 16) div 16),
           char_of ((?x mod 4 * 16 + ?y div 16) mod 16 * 16 + (?y mod 16 * 4) div 4)]"
    by (simp add: base64_decode_def Let_def sextets_step sextets_pad sb)
  also have "\<dots> = [a, b]"
    by (simp only: b64_arith1 [OF lt(2)] b64_arith4 [OF lt(2)] char_of_char)
  finally show ?case .
next
  case (3 a)
  let ?x = "of_char a :: nat"
  have lt: "?x < 256" "(0::nat) < 256" "(0::nat) < 256" by simp_all
  note sb = sextet_bounds [OF lt]
  have "base64_decode (base64_encode [a]) = [char_of (?x div 4 * 4 + (?x mod 4 * 16) div 16)]"
    by (simp add: base64_decode_def Let_def sextets_step sextets_pad sb)
  also have "\<dots> = [a]"
    by simp
  finally show ?case .
next
  case 4
  show ?case by (simp add: base64_decode_def sextets_def)
qed

subsection \<open>JSON.parse reads back what JSON.stringify writes\<close>

lemma hex_val_hex_lower:
  assumes "d < 16"
  shows "hex_val (hex_lower d) = Some d"
proof (cases "d < 10")
  case True
  then show ?thesis by (simp add: hex_val_def hex_lower_def Let_def)
next
  case False
  with assms show ?thesis by (auto simp: hex_val_def hex_lower_def Let_def)
qed

lemma parse_hex4_control:
  assumes "n < 32"
  shows "parse_hex4 (CHR ''0'' # CHR ''0'' # hex_lower (n div 16) # hex_lower (n mod 16) # tail)
           = Some (n, tail)"
proof -
  have "n div 16 < 16" using assms by simp
  then have a: "hex_val (hex_lower (n div 16)) = Some (n div 16)"
    by (rule hex_val_hex_lower)
  have b: "hex_val (hex_lower (n mod 16)) = Some (n mod 16)"
    by (rule hex_val_hex_lower) simp
  have z: "hex_val (CHR ''0'') = Some 0"
    by (simp add: hex_val_def)
  show ?thesis
    by (simp add: a b z)
qed

lemma char_from_code: "(of_char c :: nat) = of_char d \<Longrightarrow> c = d"
  by simp

lemma lex_char_quote_char:
  "lex_char (quote_char c @ tail) = Some ([c], tail)"
proof -
  let ?n = "of_char c :: nat"
  consider (dq) "c = dquote" | (bs) "c = backslash"
    | (b) "?n = 0x08" | (f) "?n = 0x0C" | (n) "?n = 0x0A" | (r) "?n = 0x0D" | (t) "?n = 0x09"
    | (ctl) "?n < 0x20" "?n \<noteq> 0x08" "?n \<noteq> 0x0C" "?n \<noteq> 0x0A" "?n \<noteq> 0x0D" "?n \<noteq> 0x09"
    | (raw) "?n \<ge> 0x20" "c \<noteq> dquote" "c \<noteq> backslash"
    by fastforce
  then show ?thesis
  proof cases
    case dq
    then show ?thesis
      by (simp add: quote_char_def lex_char_def simple_escape_def dquote_def backslash_def)
  next
    case bs
    then show ?thesis
      by (simp add: quote_char_def lex_char_def simple_escape_def dquote_def backslash_def)
  next
    case b
    then have "c = CHR 0x08" by (intro char_from_code) simp
    then show ?thesis
      by (simp add: quote_char_def lex_char_def simple_escape_def dquote_def backslash_def)
  next
    case f
    then have "c = CHR 0x0C" by (intro char_from_code) simp
    then show ?thesis
      by (simp add: quote_char_def lex_char_def simple_escape_def dquote_def backslash_def)
  next
    case n
    then have "c = CHR 0x0A" by (intro char_from_code) simp
    then show ?thesis
      by (simp add: quote_char_def lex_char_def simple_escape_def dquote_def backslash_def)
  next
    case r
    then have "c = CHR 0x0D" by (intro char_from_code) simp
    then show ?thesis
      by (simp add: quote_char_def lex_char_def simple_escape_def dquote_def backslash_def)
  next
    case t
    then have "c = CHR 0x09" by (intro char_from_code) simp
    then show ?thesis
      by (simp add: quote_char_def lex_char_def simple_escape_def dquote_def backslash_def)
  next
    case ctl
    have nq: "c \<noteq> dquote" "c \<noteq> backslash"
      using ctl(1) by (auto simp: dquote_def backslash_def)
    have q: "quote_char c =
        [backslash, CHR ''u'', CHR ''0'', CHR ''0'', hex_lower (?n div 16), hex_lower (?n mod 16)]"
      using ctl nq by (simp add: quote_char_def Let_def)
    have u: "utf8_of_unit ?n = [c]"
      using ctl(1) by (simp add: utf8_of_unit_def)
    show ?thesis
      using ctl(1) by (simp add: q lex_char_def parse_hex4_control u backslash_def del: parse_hex4.simps)
  next
    case raw
    then have q: "quote_char c = [c]"
      by (auto simp: quote_char_def Let_def)
    show ?thesis
      using raw by (simp add: q lex_char_def)
  qed
qed

lemma quote_char_head:
  "\<exists>x xs. quote_char c = x # xs \<and> x \<noteq> dquote"
  by (auto simp: quote_char_def Let_def dquote_def backslash_def)

lemma parse_string_quote_char:
  "parse_string (quote_char c @ tail) =
     (case parse_string tail of None \<Rightarrow> None | Some (t, r) \<Rightarrow> Some (c # t, r))"
proof -
  obtain x xs where q: "quote_char c = x # xs" and x: "x \<noteq> dquote"
    using quote_char_head by blast
  have "lex_char (x # xs @ tail) = Some ([c], tail)"
    using lex_char_quote_char [of c tail] by (simp add: q)
  then show ?thesis
    using x by (simp add: q split: option.splits)
qed

lemma parse_string_quoted:
  "parse_string (concat (map quote_char s) @ dquote # rest) = Some (s, rest)"
  by (induction s) (simp_all add: parse_string_quote_char)

lemma parse_scalar_quoted:
  "parse_scalar (json_quote s @ rest) = Some (JStr s, rest)"
  by (simp add: parse_scalar_def json_quote_def parse_string_quoted)

lemma skip_ws_not_ws: "\<not> is_ws c \<Longrightarrow> skip_ws (c # cs) = c # cs"
  by (simp add: skip_ws_def)

lemma skip_ws_quoted: "skip_ws (json_quote s @ rest) = json_quote s @ rest"
  by (simp add: json_quote_def skip_ws_not_ws is_ws_def dquote_def)

lemma parse_value_quoted:
  "parse_value (json_quote s @ rest) = Some (JStr s, rest)"
proof -
  have h: "json_quote s @ rest = dquote # tl (json_quote s @ rest)"
    by (simp add: json_quote_def)
  have "parse_value (json_quote s @ rest) = parse_scalar (json_quote s @ rest)"
    apply (subst parse_value.simps)
    apply (subst skip_ws_quoted)
    apply (subst (1 2) h)
    apply (simp add: dquote_def)
    done
  then show ?thesis
    by (simp add: parse_scalar_quoted)
qed

lemma dquote_facts:
  "\<not> is_ws dquote" "dquote \<noteq> CHR ''}''" "dquote \<noteq> CHR '']''" "dquote \<noteq> CHR ''[''"
  "dquote \<noteq> CHR ''{''"
  by (simp_all add: dquote_def is_ws_def)

lemma punct_not_ws:
  "\<not> is_ws (CHR '':'')" "\<not> is_ws (CHR '','')" "\<not> is_ws (CHR ''}'')" "\<not> is_ws (CHR ''{'')"
  by (simp_all add: is_ws_def)

lemma parse_value_quoted_raw:
  "parse_value (dquote # concat (map quote_char s) @ dquote # rest) = Some (JStr s, rest)"
  using parse_value_quoted [of s rest] by (simp add: json_quote_def)

lemma parse_members_last:
  "parse_members (json_quote k @ '':'' @ json_quote v @ ''}'' @ rest) = Some ([(k, JStr v)], rest)"
  unfolding json_quote_def
  by (subst parse_members.simps)
    (simp add: skip_ws_not_ws dquote_facts punct_not_ws parse_string_quoted
      parse_value_quoted_raw)

lemma parse_members_more:
  "parse_members (json_quote k @ '':'' @ json_quote v @ '','' @ others) =
     (case parse_members others of
        None \<Rightarrow> None
      | Some (ms, r) \<Rightarrow> Some ((k, JStr v) # ms, r))"
  unfolding json_quote_def
  by (subst parse_members.simps)
    (simp add: skip_ws_not_ws dquote_facts punct_not_ws parse_string_quoted
      parse_value_quoted_raw)

lemma parse_value_object:
  assumes "skip_ws t = q # t'" and "q \<noteq> CHR ''}''"
  shows "parse_value (CHR ''{'' # t) = map_option (\<lambda>(ms, r). (JObj ms, r)) (parse_members t)"
  by (subst parse_value.simps) (simp add: skip_ws_not_ws punct_not_ws assms)

lemma parse_value_stringify_state:
  "parse_value (stringify_state userId key platform) =
     Some (JObj [(''userId'', JStr userId), (key, JStr platform)], [])"
proof -
  let ?t = "json_quote ''userId'' @ '':'' @ json_quote userId @ '','' @
             json_quote key @ '':'' @ json_quote platform @ ''}'' @ []"
  have m: "parse_members ?t = Some ([(''userId'', JStr userId), (key, JStr platform)], [])"
    by (simp only: parse_members_more parse_members_last option.case prod.case)
  have h: "skip_ws ?t = dquote # tl ?t"
    by (simp add: json_quote_def skip_ws_not_ws dquote_facts)
  have e: "stringify_state userId key platform = CHR ''{'' # ?t"
    by (simp add: stringify_state_def)
  show ?thesis
    unfolding e parse_value_object [OF h dquote_facts(2)] m by simp
qed

lemma JSON_parse_stringify_state:
  "JSON_parse (stringify_state userId key platform) =
     Some (JObj [(''userId'', JStr userId), (key, JStr platform)])"
  by (simp add: JSON_parse_def parse_value_stringify_state skip_ws_def)

subsection \<open>Well-formed UTF-8 passes through \<open>toString\<close> unchanged\<close>

lemma utf8_valid_toString: "utf8_valid s \<Longrightarrow> utf8_toString s = s"
proof (induction s rule: utf8_valid.induct)
  case 1
  show ?case by simp
next
  case (2 b bs)
  obtain k ok where h: "utf8_head b bs = (k, ok)"
    by (cases "utf8_head b bs")
  with "2.prems" have ok: ok and v: "utf8_valid (drop k bs)"
    by simp_all
  from "2.IH" [OF h [symmetric] v] have "utf8_toString (drop k bs) = drop k bs" .
  with h ok show ?case by simp
qed

lemma utf8_head_ascii:
  "(of_char b :: nat) < 0x80 \<Longrightarrow> utf8_head b bs = (0, True)"
  by (simp add: utf8_head_def seq_len_def)

lemma utf8_head_complete:
  assumes "utf8_head b bs = (k, True)"
  shows "k \<le> length bs"
    and "utf8_head b (take k bs @ r) = (k, True)"
    and "0x80 \<le> (of_char b :: nat) \<Longrightarrow> \<forall>c \<in> set (take k bs). 0x80 \<le> (of_char c :: nat)"
proof -
  let ?n = "of_char b :: nat"
  have sec: "second_ok ?n c \<Longrightarrow> 0x80 \<le> (of_char c :: nat)" for c
    by (auto simp: second_ok_def Let_def split: if_splits)
  have "seq_len ?n \<in> {0, 1, 2, 3, 4}"
    by (simp add: seq_len_def)
  then consider (one) "seq_len ?n = 1" | (two) "seq_len ?n = 2" | (three) "seq_len ?n = 3"
    | (four) "seq_len ?n = 4" | (zero) "seq_len ?n = 0"
    by auto
  then have "k \<le> length bs \<and> utf8_head b (take k bs @ r) = (k, True)
       \<and> (0x80 \<le> ?n \<longrightarrow> (\<forall>c \<in> set (take k bs). 0x80 \<le> (of_char c :: nat)))"
  proof cases
    case one
    with assms show ?thesis by (simp add: utf8_head_def)
  next
    case zero
    with assms show ?thesis by (simp add: utf8_head_def)
  next
    case two
    with assms obtain c cs where "bs = c # cs" "second_ok ?n c" "k = 1"
      by (auto simp: utf8_head_def Let_def split: list.splits if_splits)
    with two sec show ?thesis by (simp add: utf8_head_def)
  next
    case three
    with assms obtain c d ds where "bs = c # d # ds" "second_ok ?n c" "continuation d" "k = 2"
      by (auto simp: utf8_head_def Let_def split: list.splits if_splits)
    with three sec show ?thesis by (simp add: utf8_head_def continuation_def)
  next
    case four
    with assms obtain c d e es where
      "bs = c # d # e # es" "second_ok ?n c" "continuation d" "continuation e" "k = 3"
      by (auto simp: utf8_head_def Let_def split: list.splits if_splits)
    with four sec show ?thesis by (simp add: utf8_head_def continuation_def)
  qed
  then show "k \<le> length bs" and "utf8_head b (take k bs @ r) = (k, True)"
    and "0x80 \<le> ?n \<Longrightarrow> \<forall>c \<in> set (take k bs). 0x80 \<le> (of_char c :: nat)"
    by blast+
qed

lemma utf8_valid_ascii_Cons:
  "(of_char c :: nat) < 0x80 \<Longrightarrow> utf8_valid (c # s) = utf8_valid s"
  by (simp add: utf8_head_ascii)

lemma utf8_valid_ascii_append:
  "\<forall>c \<in> set a. (of_char c :: nat) < 0x80 \<Longrightarrow> utf8_valid (a @ s) = utf8_valid s"
  by (induction a) (simp_all add: utf8_head_ascii)

lemma quote_char_ascii:
  "(of_char c :: nat) < 0x80 \<Longrightarrow> \<forall>d \<in> set (quote_char c). (of_char d :: nat) < 0x80"
  by (auto simp: quote_char_def Let_def dquote_def backslash_def hex_lower_def)

lemma quote_char_high:
  "0x80 \<le> (of_char c :: nat) \<Longrightarrow> quote_char c = [c]"
  by (auto simp: quote_char_def Let_def dquote_def backslash_def)

lemma escape_high:
  "\<forall>c \<in> set cs. 0x80 \<le> (of_char c :: nat) \<Longrightarrow> concat (map quote_char cs) = cs"
  by (induction cs) (simp_all add: quote_char_high)

lemma utf8_valid_escape:
  "utf8_valid s \<Longrightarrow> utf8_valid t \<Longrightarrow> utf8_valid (concat (map quote_char s) @ t)"
proof (induction s rule: utf8_valid.induct)
  case 1
  then show ?case by simp
next
  case (2 b bs)
  obtain k ok where h: "utf8_head b bs = (k, ok)"
    by (cases "utf8_head b bs")
  with "2.prems" have ok: ok and v: "utf8_valid (drop k bs)"
    by simp_all
  from "2.IH" [OF h [symmetric] v "2.prems"(2)]
  have ih: "utf8_valid (concat (map quote_char (drop k bs)) @ t)" .
  show ?case
  proof (cases "(of_char b :: nat) < 0x80")
    case True
    then have "k = 0" using h by (simp add: utf8_head_ascii)
    with ih have "utf8_valid (concat (map quote_char bs) @ t)" by simp
    then show ?thesis
      using quote_char_ascii [OF True] by (simp add: utf8_valid_ascii_append)
  next
    case False
    then have hi: "0x80 \<le> (of_char b :: nat)" by simp
    from h ok have hk: "utf8_head b bs = (k, True)" by simp
    note c = utf8_head_complete [OF hk]
    have split: "bs = take k bs @ drop k bs" by simp
    have "concat (map quote_char bs) =
            concat (map quote_char (take k bs)) @ concat (map quote_char (drop k bs))"
      by (subst split) (simp only: map_append concat_append)
    also have "concat (map quote_char (take k bs)) = take k bs"
      using c(3) [OF hi] by (rule escape_high)
    finally have e: "concat (map quote_char (b # bs)) @ t =
        b # take k bs @ (concat (map quote_char (drop k bs)) @ t)"
      by (simp add: quote_char_high [OF hi])
    have len: "length (take k bs) = k" using c(1) by simp
    show ?thesis
      unfolding e using ih c(2) len by simp
  qed
qed

lemma utf8_valid_json_quote:
  "utf8_valid s \<Longrightarrow> utf8_valid t \<Longrightarrow> utf8_valid (json_quote s @ t)"
proof -
  assume s: "utf8_valid s" and t: "utf8_valid t"
  have q: "(of_char dquote :: nat) < 0x80"
    by (simp add: dquote_def)
  from t have "utf8_valid (dquote # t)"
    by (simp only: utf8_valid_ascii_Cons [OF q])
  with s have "utf8_valid (concat (map quote_char s) @ dquote # t)"
    by (rule utf8_valid_escape)
  then have "utf8_valid (dquote # concat (map quote_char s) @ dquote # t)"
    by (simp only: utf8_valid_ascii_Cons [OF q])
  then show ?thesis
    by (simp add: json_quote_def)
qed

lemma utf8_valid_stringify_state:
  assumes "utf8_valid userId" and "utf8_valid key" and "utf8_valid platform"
  shows "utf8_valid (stringify_state userId key platform)"
proof -
  have u: "utf8_valid ''userId''"
    by (simp add: utf8_head_ascii)
  have "utf8_valid (json_quote platform @ ''}'')"
    by (rule utf8_valid_json_quote [OF assms(3)]) (simp add: utf8_head_ascii)
  then have "utf8_valid ('':'' @ json_quote platform @ ''}'')"
    by (simp add: utf8_head_ascii)
  then have "utf8_valid (json_quote key @ '':'' @ json_quote platform @ ''}'')"
    by (rule utf8_valid_json_quote [OF assms(2)])
  then have "utf8_valid ('','' @ json_quote key @ '':'' @ json_quote platform @ ''}'')"
    by (simp add: utf8_head_ascii)
  then have "utf8_valid (json_quote userId @ '','' @ json_quote key @ '':'' @
               json_quote platform @ ''}'')"
    by (rule utf8_valid_json_quote [OF assms(1)])
  then have "utf8_valid ('':'' @ json_quote userId @ '','' @ json_quote key @ '':'' @
               json_quote platform @ ''}'')"
    by (simp add: utf8_head_ascii)
  then have "utf8_valid (json_quote ''userId'' @ '':'' @ json_quote userId @ '','' @
               json_quote key @ '':'' @ json_quote platform @ ''}'')"
    by (rule utf8_valid_json_quote [OF u])
  then show ?thesis
    by (simp add: stringify_state_def utf8_head_ascii)
qed

subsection \<open>The round trip of the state\<close>

lemma decode_state_stringified:
  assumes "utf8_valid userId" and "utf8_valid key" and "utf8_valid platform"
  shows "decode_state (base64_encode (stringify_state userId key platform)) =
           Inr (member (JObj [(''userId'', JStr userId), (key, JStr platform)]) ''userId'',
                member (JObj [(''userId'', JStr userId), (key, JStr platform)]) ''platform'')"
  by (simp add: decode_state_def base64_decode_encode JSON_parse_stringify_state
      utf8_valid_toString [OF utf8_valid_stringify_state [OF assms]])

lemma supported_platforms_valid:
  "platform \<in> set supported_platforms \<Longrightarrow> utf8_valid platform"
  by (auto simp: supported_platforms_def utf8_head_ascii)

lemma encode_state_spec_loses_platform:
  assumes "utf8_valid userId" and "utf8_valid platformId"
  shows "decode_state (encode_state_spec userId platformId) = Inr (Some (JStr userId), None)"
proof -
  have k: "utf8_valid ''platformId''"
    by (simp add: utf8_head_ascii)
  show ?thesis
    unfolding encode_state_spec_def
    by (simp add: decode_state_stringified [OF assms(1) k assms(2)])
qed

lemma decode_state_u1_spotify:
  "decode_state state_u1_spotify = Inr (Some (JStr ''u1''), Some (JStr ''spotify''))"
  unfolding state_u1_spotify_def by code_simp

lemma decode_state_without_user:
  "decode_state state_without_user = Inr (None, Some (JStr ''spotify''))"
  unfolding state_without_user_def by code_simp

lemma decode_state_with_platformId:
  "decode_state state_with_platformId = Inr (Some (JStr ''u1''), None)"
  unfolding state_with_platformId_def by code_simp

lemma encode_state_u1_spotify: "encode_state ''u1'' ''spotify'' = state_u1_spotify"
  unfolding state_u1_spotify_def by code_simp

lemma encode_state_spec_u1_spotify: "encode_state_spec ''u1'' ''spotify'' = state_with_platformId"
  unfolding state_with_platformId_def by code_simp

text \<open>
  C2, as the code has it. For every well-formed userId and every platform the
  \<open>switch\<close> of the handler knows, the state that serialises \<open>{ userId, platform }\<close>
  to JSON and then to base64 is decoded by lines 1762 and 1763 to exactly that userId
  and that platform. The member has to be named \<open>platform\<close>: that is the name the
  handler destructures.
\<close>

theorem state_round_trip:
  assumes "utf8_valid userId"
    and "platform \<in> set supported_platforms"
  shows "decode_state (encode_state userId platform) =
           Inr (Some (JStr userId), Some (JStr platform))"
proof -
  have k: "utf8_valid ''platform''"
    by (simp add: utf8_head_ascii)
  show ?thesis
    unfolding encode_state_def
    by (simp add: decode_state_stringified [OF assms(1) k supported_platforms_valid [OF assms(2)]])
qed

theorem state_round_trip_witness:
  "encode_state ''u1'' ''spotify'' = ''eyJ1c2VySWQiOiJ1MSIsInBsYXRmb3JtIjoic3BvdGlmeSJ9''
   \<and> decode_state (encode_state ''u1'' ''spotify'') =
       Inr (Some (JStr ''u1''), Some (JStr ''spotify''))"
proof -
  have a: "utf8_valid ''u1''"
    by (simp add: utf8_head_ascii)
  have b: "''spotify'' \<in> set supported_platforms"
    by (simp add: supported_platforms_def)
  show ?thesis
    using state_round_trip [OF a b] encode_state_u1_spotify
    by (simp add: state_u1_spotify_def)
qed

text \<open>
  The claim as written encodes \<open>{userId, platformId}\<close>. The handler then finds the
  userId but no \<open>platform\<close> member: \<open>statePlatform\<close> is \<open>undefined\<close>.
\<close>

theorem state_round_trip_counterexample:
  "encode_state_spec ''u1'' ''spotify'' =
     ''eyJ1c2VySWQiOiJ1MSIsInBsYXRmb3JtSWQiOiJzcG90aWZ5In0=''
   \<and> decode_state (encode_state_spec ''u1'' ''spotify'') = Inr (Some (JStr ''u1''), None)"
  using encode_state_spec_u1_spotify decode_state_with_platformId
  by (simp add: state_with_platformId_def)

section \<open>Properties of the callback\<close>

lemma redirect_error_shape:
  "\<exists>m. redirect_error env platform msg = Redirect (frontend_callback env platform @ ''?error='' @ m)"
  by (simp add: redirect_error_def)

lemma callback_try_mismatch:
  assumes "decode_state state = Inr (userId, statePlatform)"
    and "statePlatform \<noteq> Some (JStr platform)"
  shows "callback_try env db platform code state =
           ([], db, Inl (Error ''Platform mismatch in state''))"
  using assms by (simp add: callback_try_def)

lemma callback_try_undecodable:
  assumes "decode_state state = Inl err"
  shows "callback_try env db platform code state = ([], db, Inl err)"
  using assms by (simp add: callback_try_def)

lemma auth_callback_run:
  assumes "query_error req = None \<or> query_error req = Some []"
    and "query_code req = Some code" and "code \<noteq> []"
    and "query_state req = Some state" and "state \<noteq> []"
  shows "auth_callback env db req =
           (case callback_try env db (params_platform req) code state of
              (effs, db', Inl err) \<Rightarrow>
                \<lparr>response = catch_redirect env (params_platform req) err,
                 effects = effs, db_after = db'\<rparr>
            | (effs, db', Inr _) \<Rightarrow>
                \<lparr>response = redirect_success env (params_platform req),
                 effects = effs, db_after = db'\<rparr>)"
  using assms by (cases code; cases state) (auto simp: auth_callback_def Let_def)

lemma auth_callback_cases [case_names provider_error thrown success missing]:
  obtains
    e es where "query_error req = Some (e # es)"
      and "auth_callback env db req =
             \<lparr>response = redirect_error env (params_platform req) (e # es),
              effects = [], db_after = db\<rparr>"
  | code state effs db' err where
      "query_code req = Some code" and "query_state req = Some state"
      and "callback_try env db (params_platform req) code state = (effs, db', Inl err)"
      and "auth_callback env db req =
             \<lparr>response = catch_redirect env (params_platform req) err,
              effects = effs, db_after = db'\<rparr>"
  | code state effs db' where
      "query_code req = Some code" and "query_state req = Some state"
      and "callback_try env db (params_platform req) code state = (effs, db', Inr ())"
      and "auth_callback env db req =
             \<lparr>response = redirect_success env (params_platform req),
              effects = effs, db_after = db'\<rparr>"
  | "auth_callback env db req =
       \<lparr>response = Redirect (frontend_callback env (params_platform req)
                                 @ ''?error=missing_parameters''),
        effects = [], db_after = db\<rparr>"
proof (cases "\<exists>e es. query_error req = Some (e # es)")
  case True
  then obtain e es where q: "query_error req = Some (e # es)" by blast
  then have "auth_callback env db req =
             \<lparr>response = redirect_error env (params_platform req) (e # es),
              effects = [], db_after = db\<rparr>"
    by (simp add: auth_callback_def)
  with q show ?thesis by (rule that(1))
next
  case False
  have ne: "query_error req = None \<or> query_error req = Some []"
  proof (cases "query_error req")
    case None
    then show ?thesis by simp
  next
    case (Some a)
    with False show ?thesis by (cases a) auto
  qed
  show ?thesis
  proof (cases "\<exists>code state. query_code req = Some code \<and> code \<noteq> []
                  \<and> query_state req = Some state \<and> state \<noteq> []")
    case True
    then obtain code state where
      q: "query_code req = Some code" "code \<noteq> []" "query_state req = Some state" "state \<noteq> []"
      by blast
    note run = auth_callback_run [OF ne q, of env db]
    obtain effs db' res where
      t: "callback_try env db (params_platform req) code state = (effs, db', res)"
      by (cases "callback_try env db (params_platform req) code state")
    show ?thesis
    proof (cases res)
      case (Inl err)
      with run t show ?thesis
        by (intro that(2) [OF q(1) q(3)]) simp_all
    next
      case (Inr u)
      with run t show ?thesis
        by (intro that(3) [OF q(1) q(3)]) simp_all
    qed
  next
    case False
    with ne have "auth_callback env db req =
       \<lparr>response = Redirect (frontend_callback env (params_platform req)
                                 @ ''?error=missing_parameters''),
        effects = [], db_after = db\<rparr>"
      by (auto simp: auth_callback_def Let_def split: option.splits list.splits)
    then show ?thesis by (rule that(4))
  qed
qed

lemma rejected_state_halts:
  assumes st: "query_state req = Some state"
    and dec: "\<And>code. callback_try env db (params_platform req) code state =
                      ([], db, Inl (Error msg))"
  shows "effects (auth_callback env db req) = []
       \<and> db_after (auth_callback env db req) = db
       \<and> (\<exists>m. response (auth_callback env db req) =
               Redirect (frontend_callback env (params_platform req) @ ''?error='' @ m))"
  by (rule auth_callback_cases [where req = req and env = env and db = db])
    (use st dec in \<open>auto simp: redirect_error_def catch_redirect_def message_def\<close>)

text \<open>
  C1. A callback whose state decodes to a platform other than the platform of the path
  (or to no platform at all) asks nothing of the outside: no configuration read, no
  code exchange, no upsert. The database is as it was, and the answer is a redirect to
  the front end with an \<open>error\<close> parameter.
\<close>

theorem callback_platform_mismatch_halts:
  assumes "query_state req = Some state"
    and "decode_state state = Inr (userId, statePlatform)"
    and "statePlatform \<noteq> Some (JStr (params_platform req))"
  shows "effects (auth_callback env db req) = []
       \<and> db_after (auth_callback env db req) = db
       \<and> (\<exists>m. response (auth_callback env db req) =
               Redirect (frontend_callback env (params_platform req) @ ''?error='' @ m))"
  by (rule rejected_state_halts [OF assms(1)]) (rule callback_try_mismatch [OF assms(2,3)])

theorem callback_platform_mismatch_halts_witness:
  "effects (auth_callback calm_env configured_db (callback_of ''youtube'' state_u1_spotify)) = []
   \<and> db_after (auth_callback calm_env configured_db (callback_of ''youtube'' state_u1_spotify))
       = configured_db
   \<and> (\<exists>m. response (auth_callback calm_env configured_db (callback_of ''youtube'' state_u1_spotify))
         = Redirect (frontend_callback calm_env ''youtube'' @ ''?error='' @ m))"
proof -
  have a: "query_state (callback_of ''youtube'' state_u1_spotify) = Some state_u1_spotify"
    by (simp add: callback_of_def)
  have b: "Some (JStr ''spotify'') \<noteq> Some (JStr (params_platform (callback_of ''youtube'' state_u1_spotify)))"
    by (simp add: callback_of_def)
  show ?thesis
    using callback_platform_mismatch_halts [OF a decode_state_u1_spotify b, of calm_env configured_db]
    by (simp add: callback_of_def)
qed

text \<open>
  C8, as the code has it. A state that decodes to a structure without a \<open>platform\<close>
  member ends the callback with the error redirect before any effect: no configuration
  read, no code exchange, no upsert.
\<close>

theorem callback_rejected_state_halts:
  assumes "query_state req = Some state"
    and "decode_state state = Inr (userId, None)"
  shows "effects (auth_callback env db req) = []
       \<and> db_after (auth_callback env db req) = db
       \<and> (\<exists>m. response (auth_callback env db req) =
               Redirect (frontend_callback env (params_platform req) @ ''?error='' @ m))"
proof -
  have "callback_try env db (params_platform req) code state =
          ([], db, Inl (Error ''Platform mismatch in state''))" for code
    by (intro callback_try_mismatch [of state userId None]) (simp_all add: assms(2))
  then show ?thesis
    by (rule rejected_state_halts [OF assms(1)])
qed

theorem callback_rejected_state_halts_witness:
  "effects (auth_callback calm_env configured_db (callback_of ''spotify'' state_with_platformId)) = []
   \<and> db_after (auth_callback calm_env configured_db (callback_of ''spotify'' state_with_platformId))
       = configured_db
   \<and> (\<exists>m. response (auth_callback calm_env configured_db (callback_of ''spotify'' state_with_platformId))
         = Redirect (frontend_callback calm_env ''spotify'' @ ''?error='' @ m))"
proof -
  have a: "query_state (callback_of ''spotify'' state_with_platformId) = Some state_with_platformId"
    by (simp add: callback_of_def)
  show ?thesis
    using callback_rejected_state_halts
      [OF a decode_state_with_platformId, of calm_env configured_db]
    by (simp add: callback_of_def)
qed

lemma callback_try_without_user:
  "callback_try calm_env configured_db ''spotify'' ''abc'' state_without_user =
     ([Config_read ''spotify'',
       Exchange (exchangeSpotifyCode ''abc'' spotify_config),
       Token_upsert (upsert_values 1000 None ''spotify'' token_without_expiry None)],
      configured_db\<lparr>oauth_tokens :=
         [upsert_values 1000 None ''spotify'' token_without_expiry None]\<rparr>,
      Inr ())"
  by (simp add: callback_try_def decode_state_without_user calm_env_def configured_db_def
      single_def spotify_config_def exchange_for_def compute_expiresAt_def
      token_without_expiry_def upsert_token_def Let_def)

text \<open>
  The claim as written also wants a state without \<open>userId\<close> rejected. The state
  \<open>{"platform":"spotify"}\<close> is not: the code is exchanged and a row is upserted
  whose \<open>user_id\<close> is \<open>undefined\<close>.
\<close>

theorem callback_missing_userId_counterexample:
  "decode_state state_without_user = Inr (None, Some (JStr ''spotify''))
   \<and> effects (auth_callback calm_env configured_db (callback_of ''spotify'' state_without_user)) =
       [Config_read ''spotify'',
        Exchange (exchangeSpotifyCode ''abc'' spotify_config),
        Token_upsert (upsert_values 1000 None ''spotify'' token_without_expiry None)]
   \<and> response (auth_callback calm_env configured_db (callback_of ''spotify'' state_without_user)) =
       redirect_success calm_env ''spotify''
   \<and> oauth_tokens (db_after (auth_callback calm_env configured_db
         (callback_of ''spotify'' state_without_user))) =
       [upsert_values 1000 None ''spotify'' token_without_expiry None]"
proof -
  have "state_without_user \<noteq> []"
    by (simp add: state_without_user_def)
  then show ?thesis
    by (simp add: decode_state_without_user callback_try_without_user
        auth_callback_run [where code = "''abc''" and state = state_without_user] callback_of_def)
qed

lemma callback_try_effects:
  assumes "callback_try env db platform code state = (effs, db', res)"
  shows "(\<forall>r. Exchange r \<in> set effs \<longrightarrow>
            (\<exists>config \<in> set (platform_oauth_configs db).
               cfg_platform_id config = platform \<and> enabled config \<and>
               exchange_for platform code config = Some r))
       \<and> (\<forall>v. Token_upsert v \<in> set effs \<longrightarrow>
            (\<exists>r tokenData expiresAt userId.
               Exchange r \<in> set effs \<and> provider env r = Body tokenData \<and>
               compute_expiresAt (clock env) tokenData = Inr expiresAt \<and>
               v = upsert_values (clock env) userId platform tokenData expiresAt))"
proof -
  have single_mem: "single xs = Some x \<Longrightarrow> x \<in> set xs" for xs :: "config_row list" and x
    by (auto simp: single_def split: list.splits)
  show ?thesis
    using assms
    unfolding callback_try_def Let_def
    by (auto split: sum.splits prod.splits if_splits option.splits store_fault.splits
        provider_reply.splits dest!: single_mem)
qed

lemma auth_callback_effects:
  assumes "x \<in> set (effects (auth_callback env db req))"
  shows "\<exists>code state effs db' res.
           query_code req = Some code \<and> query_state req = Some state \<and>
           callback_try env db (params_platform req) code state = (effs, db', res) \<and>
           x \<in> set effs"
  by (rule auth_callback_cases [where req = req and env = env and db = db])
    (use assms in auto)

text \<open>
  C7, as the code has it. Every exchange request that a callback for spotify sends is
  a POST with a form-encoded body of \<open>grant_type=authorization_code\<close>, \<open>code\<close>,
  \<open>redirect_uri\<close>, \<open>client_id\<close> and \<open>client_secret\<close>, taken from a row of
  \<open>platform_oauth_configs\<close>; it carries no \<open>Authorization\<close> header.
\<close>

theorem spotify_exchange_request:
  assumes "params_platform req = ''spotify''"
    and "Exchange r \<in> set (effects (auth_callback env db req))"
  shows "http_method r = POST
       \<and> map_of (headers r) ''Content-Type'' = Some ''application/x-www-form-urlencoded''
       \<and> map_of (headers r) ''Authorization'' = None
       \<and> (\<exists>code config.
            query_code req = Some code \<and> config \<in> set (platform_oauth_configs db) \<and>
            body r = Form [(''grant_type'', ''authorization_code''),
                           (''code'', code),
                           (''redirect_uri'', js_String (redirect_uri config)),
                           (''client_id'', js_String (client_id config)),
                           (''client_secret'', js_String (client_secret config))])"
proof -
  from auth_callback_effects [OF assms(2)] obtain code state effs db' res where
    c: "query_code req = Some code" and
    t: "callback_try env db (params_platform req) code state = (effs, db', res)" and
    m: "Exchange r \<in> set effs"
    by blast
  from callback_try_effects [OF t] m obtain config where
    cfg: "config \<in> set (platform_oauth_configs db)" and
    ex: "exchange_for (params_platform req) code config = Some r"
    by blast
  from ex assms(1) have r: "r = exchangeSpotifyCode code config"
    by (simp add: exchange_for_def)
  show ?thesis
    using c cfg unfolding r by (auto simp: exchangeSpotifyCode_def)
qed

lemma callback_try_u1_spotify:
  "callback_try calm_env configured_db ''spotify'' ''abc'' state_u1_spotify =
     ([Config_read ''spotify'',
       Exchange (exchangeSpotifyCode ''abc'' spotify_config),
       Token_upsert (upsert_values 1000 (Some (JStr ''u1'')) ''spotify'' token_without_expiry None)],
      configured_db\<lparr>oauth_tokens :=
         [upsert_values 1000 (Some (JStr ''u1'')) ''spotify'' token_without_expiry None]\<rparr>,
      Inr ())"
  by (simp add: callback_try_def decode_state_u1_spotify calm_env_def configured_db_def
      single_def spotify_config_def exchange_for_def compute_expiresAt_def
      token_without_expiry_def upsert_token_def Let_def)

lemma state_u1_spotify_nonempty: "state_u1_spotify \<noteq> []"
  by (simp add: state_u1_spotify_def)

lemma auth_callback_u1_spotify:
  "auth_callback calm_env configured_db (callback_of ''spotify'' state_u1_spotify) =
     \<lparr>response = redirect_success calm_env ''spotify'',
      effects = [Config_read ''spotify'',
                 Exchange (exchangeSpotifyCode ''abc'' spotify_config),
                 Token_upsert (upsert_values 1000 (Some (JStr ''u1'')) ''spotify''
                                 token_without_expiry None)],
      db_after = configured_db\<lparr>oauth_tokens :=
         [upsert_values 1000 (Some (JStr ''u1'')) ''spotify'' token_without_expiry None]\<rparr>\<rparr>"
  using state_u1_spotify_nonempty
  by (simp add: callback_try_u1_spotify
      auth_callback_run [where code = "''abc''" and state = state_u1_spotify] callback_of_def)

theorem spotify_exchange_request_witness:
  "http_method (exchangeSpotifyCode ''abc'' spotify_config) = POST
   \<and> map_of (headers (exchangeSpotifyCode ''abc'' spotify_config)) ''Authorization'' = None
   \<and> (\<exists>code config.
        query_code (callback_of ''spotify'' state_u1_spotify) = Some code \<and>
        config \<in> set (platform_oauth_configs configured_db) \<and>
        body (exchangeSpotifyCode ''abc'' spotify_config) =
          Form [(''grant_type'', ''authorization_code''),
                (''code'', code),
                (''redirect_uri'', js_String (redirect_uri config)),
                (''client_id'', js_String (client_id config)),
                (''client_secret'', js_String (client_secret config))])"
proof -
  have a: "params_platform (callback_of ''spotify'' state_u1_spotify) = ''spotify''"
    by (simp add: callback_of_def)
  have b: "Exchange (exchangeSpotifyCode ''abc'' spotify_config)
             \<in> set (effects (auth_callback calm_env configured_db
                                (callback_of ''spotify'' state_u1_spotify)))"
    by (simp add: auth_callback_u1_spotify)
  show ?thesis
    using spotify_exchange_request [OF a b] by blast
qed

text \<open>
  The claim as written asks for a Basic \<open>Authorization\<close> header and no
  \<open>client_secret\<close> in the body. The request of a spotify callback has only the
  \<open>Content-Type\<close> header, and the secret is a field of the form.
\<close>

theorem spotify_exchange_request_counterexample:
  "effects (auth_callback calm_env configured_db (callback_of ''spotify'' state_u1_spotify)) ! 1 =
     Exchange
       \<lparr>http_method = POST,
        url = ''https://accounts.spotify.com/api/token'',
        headers = [(''Content-Type'', ''application/x-www-form-urlencoded'')],
        params = [],
        body = Form [(''grant_type'', ''authorization_code''),
                     (''code'', ''abc''),
                     (''redirect_uri'', ''https://api.example/cb''),
                     (''client_id'', ''cid''),
                     (''client_secret'', ''s3cret'')]\<rparr>"
  by (simp add: auth_callback_u1_spotify exchangeSpotifyCode_def spotify_config_def js_String_def)








lemma callback_redirects_when_messages_wellformed:
  assumes "\<And>e. engine_message env e \<noteq> Lone_surrogate"
  shows "\<exists>q. response (auth_callback env db req) =
          Redirect (frontend_callback env (params_platform req) @ ''?'' @ q)
       \<and> (q = ''connected='' @ params_platform req @ ''&success=true''
          \<or> (\<exists>m. q = ''error='' @ m))"
proof -
  have "\<exists>m. catch_redirect env platform err = redirect_error env platform m" for platform err
  proof (cases err)
    case (Error m)
    then show ?thesis by (auto simp: catch_redirect_def message_def)
  next
    case (Engine e)
    with assms [of e] show ?thesis
      by (cases "engine_message env e") (auto simp: catch_redirect_def message_def)
  qed
  then have cr: "\<exists>m. catch_redirect env (params_platform req) err =
      Redirect (frontend_callback env (params_platform req) @ ''?error='' @ m)" for err
    unfolding redirect_error_def by metis
  show ?thesis
  proof (rule auth_callback_cases [where req = req and env = env and db = db])
    fix e es
    assume "auth_callback env db req =
             \<lparr>response = redirect_error env (params_platform req) (e # es),
              effects = [], db_after = db\<rparr>"
    then show ?thesis
      by (simp add: redirect_error_def)
  next
    fix effs db' err
    assume a: "auth_callback env db req =
             \<lparr>response = catch_redirect env (params_platform req) err,
              effects = effs, db_after = db'\<rparr>"
    from cr [of err] obtain m where "catch_redirect env (params_platform req) err =
      Redirect (frontend_callback env (params_platform req) @ ''?error='' @ m)" ..
    with a show ?thesis
      by simp
  next
    fix effs db'
    assume "auth_callback env db req =
             \<lparr>response = redirect_success env (params_platform req),
              effects = effs, db_after = db'\<rparr>"
    then show ?thesis
      by (simp add: redirect_success_def)
  next
    assume "auth_callback env db req =
       \<lparr>response = Redirect (frontend_callback env (params_platform req)
                                 @ ''?error=missing_parameters''),
        effects = [], db_after = db\<rparr>"
    then show ?thesis
      by simp
  qed
qed

lemma decode_state_astral:
  "decode_state state_astral =
     Inl (Engine (SyntaxError_JSON [CHR 0xF0, CHR 0x9F, CHR 0x98, CHR 0x80]))"
  unfolding state_astral_def by code_simp

text \<open>
  C9. The handler is meant to answer every request with a redirect, and it does so
  whenever the message of the error it caught is well-formed text (lemma
  \<open>callback_redirects_when_messages_wellformed\<close>). It does not for the state
  \<open>8J+YgA==\<close>: \<open>JSON.parse\<close> throws a SyntaxError whose message holds a lone
  surrogate, \<open>encodeURIComponent\<close> throws in the \<open>catch\<close> block, and the URIError
  leaves the handler with no answer sent.
\<close>

theorem callback_uncaught_on_surrogate_message:
  "auth_callback v8_env configured_db (callback_of ''spotify'' state_astral) =
     \<lparr>response = Uncaught (Engine URIError_malformed), effects = [],
      db_after = configured_db\<rparr>"
proof -
  have n: "state_astral \<noteq> []"
    by (simp add: state_astral_def)
  have t: "callback_try v8_env configured_db ''spotify'' ''abc'' state_astral =
             ([], configured_db,
              Inl (Engine (SyntaxError_JSON [CHR 0xF0, CHR 0x9F, CHR 0x98, CHR 0x80])))"
    by (simp add: callback_try_def decode_state_astral)
  have m: "catch_redirect v8_env ''spotify''
             (Engine (SyntaxError_JSON [CHR 0xF0, CHR 0x9F, CHR 0x98, CHR 0x80])) =
           Uncaught (Engine URIError_malformed)"
    by (simp add: catch_redirect_def message_def v8_env_def v8_message_def)
  show ?thesis
    using n
    by (simp add: auth_callback_run [where code = "''abc''" and state = state_astral]
        callback_of_def t m)
qed

text \<open>
  C10. When the newest row of a key has no \<open>expires_at\<close>, \<open>getUserOAuthToken\<close>
  returns its access token at every time \<open>now\<close>: the expiry test is skipped. The
  callback writes such a row whenever the provider's answer carries no \<open>expires_in\<close>:
  every upsert of a callback whose provider never sends \<open>expires_in\<close> has
  \<open>expires_at\<close> \<open>null\<close>.
\<close>

theorem token_without_expiry_never_expires:
  assumes "select_fault env = None"
    and "select_tokens userId platform rows = tokenData # rest"
    and "expires_at tokenData = None"
  shows "(\<forall>now. returned (getUserOAuthToken env now rows userId platform) = access_token tokenData)
       \<and> (\<forall>cenv db req v.
            (\<forall>r td. provider cenv r = Body td \<longrightarrow> tr_expires_in td = None) \<longrightarrow>
            Token_upsert v \<in> set (effects (auth_callback cenv db req)) \<longrightarrow>
            expires_at v = None)"
proof (intro conjI allI impI)
  fix now
  show "returned (getUserOAuthToken env now rows userId platform) = access_token tokenData"
    using assms by (simp add: getUserOAuthToken_def)
next
  fix cenv db req v
  assume p: "\<forall>r td. provider cenv r = Body td \<longrightarrow> tr_expires_in td = None"
    and u: "Token_upsert v \<in> set (effects (auth_callback cenv db req))"
  from auth_callback_effects [OF u] obtain code state effs db' res where
    t: "callback_try cenv db (params_platform req) code state = (effs, db', res)" and
    m: "Token_upsert v \<in> set effs"
    by blast
  from callback_try_effects [OF t] m obtain r tokenData expiresAt userId where
    b: "provider cenv r = Body tokenData" and
    e: "compute_expiresAt (clock cenv) tokenData = Inr expiresAt" and
    v: "v = upsert_values (clock cenv) userId (params_platform req) tokenData expiresAt"
    by blast
  from p b have "tr_expires_in tokenData = None" by blast
  with e have "expiresAt = None"
    by (simp add: compute_expiresAt_def)
  with v show "expires_at v = None"
    by (simp add: upsert_values_def)
qed

theorem token_without_expiry_never_expires_witness:
  "oauth_tokens (db_after (auth_callback calm_env configured_db
      (callback_of ''spotify'' state_u1_spotify))) =
     [upsert_values 1000 (Some (JStr ''u1'')) ''spotify'' token_without_expiry None]
   \<and> returned (getUserOAuthToken reachable_store 4102444800000
        [upsert_values 1000 (Some (JStr ''u1'')) ''spotify'' token_without_expiry None]
        ''u1'' ''spotify'') = Some ''AT''
   \<and> expires_at (upsert_values 1000 (Some (JStr ''u1'')) ''spotify'' token_without_expiry None)
       = None"
proof -
  let ?row = "upsert_values 1000 (Some (JStr ''u1'')) ''spotify'' token_without_expiry None"
  have a: "select_fault reachable_store = None"
    by (simp add: reachable_store_def)
  have b: "select_tokens ''u1'' ''spotify'' [?row] = ?row # []"
    by (simp add: select_tokens_def row_matches_def upsert_values_def)
  have c: "expires_at ?row = None"
    by (simp add: upsert_values_def)
  have p: "\<forall>r td. provider calm_env r = Body td \<longrightarrow> tr_expires_in td = None"
    by (simp add: calm_env_def token_without_expiry_def)
  have u: "Token_upsert ?row \<in> set (effects (auth_callback calm_env configured_db
              (callback_of ''spotify'' state_u1_spotify)))"
    by (simp add: auth_callback_u1_spotify)
  have acc: "access_token ?row = Some ''AT''"
    by (simp add: upsert_values_def token_without_expiry_def)
  from token_without_expiry_never_expires [OF a b c]
  have "returned (getUserOAuthToken reachable_store 4102444800000 [?row] ''u1'' ''spotify'') =
          access_token ?row"
    and "expires_at ?row = None"
    using p u by blast+
  then show ?thesis
    by (simp add: acc auth_callback_u1_spotify)
qed

end
